theory Spec2Isabelle
  imports Complex_Main "HOL-Library.Multiset"
begin

section \<open>Numbers, arrays and Python failures\<close>

text \<open>
  The network of \<^verbatim>\<open>src/network/__init__.py\<close> computes on numpy arrays of
  floating-point numbers. The embedding idealises the numbers as \<^typ>\<open>real\<close>: rounding,
  overflow, infinities and NaN are outside the model. A one-dimensional array is a list
  of reals, a two-dimensional array is the list of its rows (all of one length in
  numpy). An exception of the source is the \<open>Inl\<close> branch of a sum.

  numpy stretches an axis of extent 1 to fit the other operand of an elementwise
  operation; the embedding reports every disagreement of shapes as
  \<open>ValueError\<close>. All theorems about arithmetic on arrays are stated for
  arrays whose shapes agree, where the two coincide.
\<close>

type_synonym vec = "real list"
type_synonym mat = "real list list"

datatype error = IndexError | ValueError | ZeroDivisionError

text \<open>\<^verbatim>\<open>int(x)\<close> on a number: truncation towards zero.\<close>

definition py_int :: "real \<Rightarrow> int" where
  "py_int x = (if 0 \<le> x then \<lfloor>x\<rfloor> else \<lceil>x\<rceil>)"

text \<open>\<^verbatim>\<open>xs[i]\<close> and \<^verbatim>\<open>xs[i] = v\<close>: a negative index counts from the end,
  an index outside \<open>-len \<le> i < len\<close> raises IndexError.\<close>

definition py_index :: "'a list \<Rightarrow> int \<Rightarrow> error + nat" where
  "py_index xs i =
     (let n = int (length xs) in
      if 0 \<le> i \<and> i < n then Inr (nat i)
      else if - n \<le> i \<and> i < 0 then Inr (nat (n + i))
      else Inl IndexError)"

definition py_get :: "'a list \<Rightarrow> int \<Rightarrow> error + 'a" where
  "py_get xs i = (case py_index xs i of Inl e \<Rightarrow> Inl e | Inr k \<Rightarrow> Inr (xs ! k))"

definition py_set :: "'a list \<Rightarrow> int \<Rightarrow> 'a \<Rightarrow> error + 'a list" where
  "py_set xs i v = (case py_index xs i of Inl e \<Rightarrow> Inl e | Inr k \<Rightarrow> Inr (xs[k := v]))"

text \<open>\<^verbatim>\<open>np.zeros_like(a)\<close>, \<^verbatim>\<open>np.zeros(a.shape)\<close>.\<close>

definition zeros_like :: "vec \<Rightarrow> vec" where
  "zeros_like a = map (\<lambda>_. 0) a"

definition zeros_like_mat :: "mat \<Rightarrow> mat" where
  "zeros_like_mat w = map zeros_like w"

text \<open>Elementwise operations on arrays of one shape.\<close>

definition vec_op :: "(real \<Rightarrow> real \<Rightarrow> real) \<Rightarrow> vec \<Rightarrow> vec \<Rightarrow> error + vec" where
  "vec_op f a b = (if length a = length b then Inr (map2 f a b) else Inl ValueError)"

definition mat_op :: "(real \<Rightarrow> real \<Rightarrow> real) \<Rightarrow> mat \<Rightarrow> mat \<Rightarrow> error + mat" where
  "mat_op f a b =
     (if map length a = map length b then Inr (map2 (map2 f) a b) else Inl ValueError)"

text \<open>\<^verbatim>\<open>np.dot(w, v)\<close> of a matrix and a vector: every row of \<open>w\<close> has to be as
  long as \<open>v\<close>.\<close>

definition vdot :: "vec \<Rightarrow> vec \<Rightarrow> real" where
  "vdot a b = sum_list (map2 (*) a b)"

definition dot :: "mat \<Rightarrow> vec \<Rightarrow> error + vec" where
  "dot w v =
     (if list_all (\<lambda>row. length row = length v) w then Inr (map (\<lambda>row. vdot row v) w)
      else Inl ValueError)"

text \<open>\<^verbatim>\<open>w.T\<close>: the columns of \<open>w\<close> as rows (for a matrix with at least one row).\<close>

definition transpose_mat :: "mat \<Rightarrow> mat" where
  "transpose_mat w =
     (case w of [] \<Rightarrow> [] | r # _ \<Rightarrow> map (\<lambda>j. map (\<lambda>row. row ! j) w) [0..<length r])"

text \<open>\<^verbatim>\<open>np.outer(a, b)\<close>.\<close>

definition outer :: "vec \<Rightarrow> vec \<Rightarrow> mat" where
  "outer a b = map (\<lambda>x. map (\<lambda>y. x * y) b) a"

section \<open>Activation and cost\<close>

definition sigmoid :: "real \<Rightarrow> real" where
  "sigmoid x = 1 / (1 + exp (- x))"

definition sigmoid_derivative :: "real \<Rightarrow> real" where
  "sigmoid_derivative x = sigmoid x * (1 - sigmoid x)"

text \<open>Lines 14-33. Both functions build \<open>y\<close> as zeros with a 1 stored at
  \<^verbatim>\<open>int(one_hot_index)\<close>; the store is the only statement that can fail.\<close>

definition cost_function :: "vec \<Rightarrow> real \<Rightarrow> error + real" where
  "cost_function output_activations one_hot_index =
     (case py_set (zeros_like output_activations) (py_int one_hot_index) 1 of
        Inl e \<Rightarrow> Inl e
      | Inr y \<Rightarrow> Inr (0.5 * sum_list (map (\<lambda>d. d ^ 2) (map2 (-) output_activations y))))"

definition cost_derivative :: "vec \<Rightarrow> real \<Rightarrow> error + vec" where
  "cost_derivative output_activations one_hot_index =
     (case py_set (zeros_like output_activations) (py_int one_hot_index) 1 of
        Inl e \<Rightarrow> Inl e
      | Inr y \<Rightarrow> Inr (map2 (-) output_activations y))"

section \<open>The network\<close>

text \<open>
  The attributes of a \<^verbatim>\<open>Network\<close> object. The activation, its derivative and the
  derivative of the cost are attributes too; they are called on whole arrays. The
  attribute \<^verbatim>\<open>self.cost_derivative\<close> is the field \<open>net_cost_derivative\<close>, since
  \<open>cost_derivative\<close> names the module's function.
\<close>

record network =
  num_layers :: nat
  "structure" :: "int list"
  activate_function :: "vec \<Rightarrow> vec"
  activate_derivative :: "vec \<Rightarrow> vec"
  net_cost_derivative :: "vec \<Rightarrow> real \<Rightarrow> error + vec"
  weights :: "mat list"
  biases :: "vec list"

text \<open>
  \<^verbatim>\<open>np.random.randn\<close> reads numpy's global generator. The generator is the sequence
  of the draws still to come; a call takes as many as the array has entries, in row
  order, and fails on a negative extent.
\<close>

type_synonym rng = "nat \<Rightarrow> real"

definition randn_mat :: "int \<Rightarrow> int \<Rightarrow> rng \<Rightarrow> error + (mat \<times> rng)" where
  "randn_mat r c g =
     (if r < 0 \<or> c < 0 then Inl ValueError
      else Inr (map (\<lambda>i. map (\<lambda>j. g (i * nat c + j)) [0..<nat c]) [0..<nat r],
                \<lambda>k. g (k + nat r * nat c)))"

definition randn_vec :: "int \<Rightarrow> rng \<Rightarrow> error + (vec \<times> rng)" where
  "randn_vec n g =
     (if n < 0 then Inl ValueError else Inr (map g [0..<nat n], \<lambda>k. g (k + nat n)))"

text \<open>Lines 52-53 and 57: the comprehensions over \<^verbatim>\<open>range(1, num_layers)\<close>.\<close>

fun init_weights :: "int list \<Rightarrow> nat list \<Rightarrow> rng \<Rightarrow> error + (mat list \<times> rng)" where
  "init_weights struct [] g = Inr ([], g)"
| "init_weights struct (layer # layers) g =
     (case randn_mat (struct ! layer) (struct ! (layer - 1)) g of
        Inl e \<Rightarrow> Inl e
      | Inr (w, g') \<Rightarrow>
          (case init_weights struct layers g' of
             Inl e \<Rightarrow> Inl e
           | Inr (ws, g'') \<Rightarrow> Inr (w # ws, g'')))"

fun init_biases :: "int list \<Rightarrow> nat list \<Rightarrow> rng \<Rightarrow> error + (vec list \<times> rng)" where
  "init_biases struct [] g = Inr ([], g)"
| "init_biases struct (layer # layers) g =
     (case randn_vec (struct ! layer) g of
        Inl e \<Rightarrow> Inl e
      | Inr (b, g') \<Rightarrow>
          (case init_biases struct layers g' of
             Inl e \<Rightarrow> Inl e
           | Inr (bs, g'') \<Rightarrow> Inr (b # bs, g'')))"

text \<open>\<^verbatim>\<open>Network.__init__\<close>, lines 37-57. The optional arguments \<^verbatim>\<open>weights\<close> and
  \<^verbatim>\<open>biases\<close> are options; the constructor returns the object and the generator
  after the draws.\<close>

definition Network ::
  "int list \<Rightarrow> mat list option \<Rightarrow> vec list option \<Rightarrow> (vec \<Rightarrow> vec) \<Rightarrow> (vec \<Rightarrow> vec) \<Rightarrow>
   (vec \<Rightarrow> real \<Rightarrow> error + vec) \<Rightarrow> rng \<Rightarrow> error + (network \<times> rng)" where
  "Network struct weights_arg biases_arg activate_fn activate_der cost_der g =
     (let n = length struct in
      case (case weights_arg of
              Some ws \<Rightarrow> Inr (ws, g)
            | None \<Rightarrow> init_weights struct [1..<n] g) of
        Inl e \<Rightarrow> Inl e
      | Inr (ws, g') \<Rightarrow>
          (case (case biases_arg of
                   Some bs \<Rightarrow> Inr (bs, g')
                 | None \<Rightarrow> init_biases struct [1..<n] g') of
             Inl e \<Rightarrow> Inl e
           | Inr (bs, g'') \<Rightarrow>
               Inr (\<lparr>num_layers = n, structure = struct, activate_function = activate_fn,
                     activate_derivative = activate_der, net_cost_derivative = cost_der,
                     weights = ws, biases = bs\<rparr>, g'')))"

subsection \<open>Forward inference\<close>

text \<open>Lines 59-63: the loop over \<^verbatim>\<open>zip(self.weights, self.biases)\<close>.\<close>

fun forward_loop :: "(vec \<Rightarrow> vec) \<Rightarrow> (mat \<times> vec) list \<Rightarrow> vec \<Rightarrow> error + vec" where
  "forward_loop f [] output = Inr output"
| "forward_loop f ((w, b) # rest) output =
     (case dot w output of
        Inl e \<Rightarrow> Inl e
      | Inr d \<Rightarrow>
          (case vec_op (+) d b of
             Inl e \<Rightarrow> Inl e
           | Inr s \<Rightarrow> forward_loop f rest (f s)))"

definition forward_feed :: "network \<Rightarrow> vec \<Rightarrow> error + vec" where
  "forward_feed net example =
     forward_loop (activate_function net) (zip (weights net) (biases net)) example"

subsection \<open>Backpropagation\<close>

text \<open>Lines 148-155: the forward pass that records every summatory and activation.\<close>

fun forward_trace ::
  "(vec \<Rightarrow> vec) \<Rightarrow> (mat \<times> vec) list \<Rightarrow> vec \<Rightarrow> vec list \<Rightarrow> vec list \<Rightarrow>
   error + (vec list \<times> vec list)" where
  "forward_trace f [] activation activation_matrix summatory_matrix =
     Inr (activation_matrix, summatory_matrix)"
| "forward_trace f ((w, b) # rest) activation activation_matrix summatory_matrix =
     (case dot w activation of
        Inl e \<Rightarrow> Inl e
      | Inr d \<Rightarrow>
          (case vec_op (+) d b of
             Inl e \<Rightarrow> Inl e
           | Inr summatory \<Rightarrow>
               forward_trace f rest (f summatory)
                 (activation_matrix @ [f summatory]) (summatory_matrix @ [summatory])))"

text \<open>Lines 165-168: the loop over \<^verbatim>\<open>range(2, self.num_layers)\<close>, with the
  subexpressions evaluated in the order of the source.\<close>

fun backward_loop ::
  "network \<Rightarrow> vec list \<Rightarrow> vec list \<Rightarrow> int list \<Rightarrow> vec \<Rightarrow> vec list \<Rightarrow> mat list \<Rightarrow>
   error + (mat list \<times> vec list)" where
  "backward_loop net activation_matrix summatory_matrix [] delta nabla_biases nabla_weights =
     Inr (nabla_weights, nabla_biases)"
| "backward_loop net activation_matrix summatory_matrix (layer # layers) delta
       nabla_biases nabla_weights =
     (case py_get (weights net) (- layer + 1) of
        Inl e \<Rightarrow> Inl e
      | Inr w \<Rightarrow>
     (case dot (transpose_mat w) delta of
        Inl e \<Rightarrow> Inl e
      | Inr back \<Rightarrow>
     (case py_get summatory_matrix (- layer) of
        Inl e \<Rightarrow> Inl e
      | Inr s \<Rightarrow>
     (case vec_op (*) back (activate_derivative net s) of
        Inl e \<Rightarrow> Inl e
      | Inr delta' \<Rightarrow>
     (case py_set nabla_biases (- layer) delta' of
        Inl e \<Rightarrow> Inl e
      | Inr nabla_biases' \<Rightarrow>
     (case py_get activation_matrix (- layer - 1) of
        Inl e \<Rightarrow> Inl e
      | Inr a \<Rightarrow>
     (case py_set nabla_weights (- layer) (outer delta' a) of
        Inl e \<Rightarrow> Inl e
      | Inr nabla_weights' \<Rightarrow>
          backward_loop net activation_matrix summatory_matrix layers delta'
            nabla_biases' nabla_weights')))))))"

text \<open>\<^verbatim>\<open>Network.backprop\<close>, lines 127-170.\<close>

definition backprop :: "network \<Rightarrow> vec \<Rightarrow> real \<Rightarrow> error + (mat list \<times> vec list)" where
  "backprop net x y =
     (let nabla_biases = map zeros_like (biases net);
          nabla_weights = map zeros_like_mat (weights net)
      in
      case forward_trace (activate_function net) (zip (weights net) (biases net)) x [x] [] of
        Inl e \<Rightarrow> Inl e
      | Inr (activation_matrix, summatory_matrix) \<Rightarrow>
     (case py_get activation_matrix (- 1) of
        Inl e \<Rightarrow> Inl e
      | Inr a_last \<Rightarrow>
     (case net_cost_derivative net a_last y of
        Inl e \<Rightarrow> Inl e
      | Inr c \<Rightarrow>
     (case py_get summatory_matrix (- 1) of
        Inl e \<Rightarrow> Inl e
      | Inr s_last \<Rightarrow>
     (case vec_op (*) c (activate_derivative net s_last) of
        Inl e \<Rightarrow> Inl e
      | Inr delta \<Rightarrow>
     (case py_set nabla_biases (- 1) delta of
        Inl e \<Rightarrow> Inl e
      | Inr nabla_biases' \<Rightarrow>
     (case py_get activation_matrix (- 2) of
        Inl e \<Rightarrow> Inl e
      | Inr a_prev \<Rightarrow>
     (case py_set nabla_weights (- 1) (outer delta a_prev) of
        Inl e \<Rightarrow> Inl e
      | Inr nabla_weights' \<Rightarrow>
          backward_loop net activation_matrix summatory_matrix
            (map int [2..<num_layers net]) delta nabla_biases' nabla_weights'))))))))"

subsection \<open>The mini-batch update\<close>

text \<open>A dataset is a two-dimensional array with at least one column: the features, then
  the label. \<^verbatim>\<open>zip(rows[:, :-1], rows[:, -1])\<close> pairs every row's features with its
  label; the column index \<open>-1\<close> is out of range when the rows are empty.\<close>

definition split_columns :: "mat \<Rightarrow> error + (vec \<times> real) list" where
  "split_columns rows =
     (if list_ex (\<lambda>r. r = []) rows then Inl IndexError
      else Inr (map (\<lambda>r. (butlast r, last r)) rows))"

text \<open>A comprehension whose elements may raise: the first failure is the result.\<close>

fun collect :: "(error + 'a) list \<Rightarrow> error + 'a list" where
  "collect [] = Inr []"
| "collect (x # xs) =
     (case x of
        Inl e \<Rightarrow> Inl e
      | Inr v \<Rightarrow> (case collect xs of Inl e \<Rightarrow> Inl e | Inr vs \<Rightarrow> Inr (v # vs)))"

text \<open>\<^verbatim>\<open>a / n\<close> for a number \<open>a\<close> and a length \<open>n\<close>.\<close>

definition truediv :: "real \<Rightarrow> nat \<Rightarrow> error + real" where
  "truediv a n = (if n = 0 then Inl ZeroDivisionError else Inr (a / real n))"

definition scale_vec :: "real \<Rightarrow> vec \<Rightarrow> vec" where
  "scale_vec c v = map (\<lambda>x. c * x) v"

definition scale_mat :: "real \<Rightarrow> mat \<Rightarrow> mat" where
  "scale_mat c w = map (scale_vec c) w"

text \<open>Lines 111-114: the loop that sums the gradients of the examples.\<close>

fun accumulate ::
  "network \<Rightarrow> (vec \<times> real) list \<Rightarrow> vec list \<Rightarrow> mat list \<Rightarrow> error + (vec list \<times> mat list)" where
  "accumulate net [] nabla_biases nabla_weights = Inr (nabla_biases, nabla_weights)"
| "accumulate net ((x, y) # rest) nabla_biases nabla_weights =
     (case backprop net x y of
        Inl e \<Rightarrow> Inl e
      | Inr (nabla_w, nabla_b) \<Rightarrow>
     (case collect (map2 (vec_op (+)) nabla_biases nabla_b) of
        Inl e \<Rightarrow> Inl e
      | Inr nabla_biases' \<Rightarrow>
     (case collect (map2 (mat_op (+)) nabla_weights nabla_w) of
        Inl e \<Rightarrow> Inl e
      | Inr nabla_weights' \<Rightarrow> accumulate net rest nabla_biases' nabla_weights')))"

text \<open>\<^verbatim>\<open>Network.update_mini_batch\<close>, lines 90-125. The result is the network after
  the call.\<close>

definition update_mini_batch :: "network \<Rightarrow> mat \<Rightarrow> real \<Rightarrow> error + network" where
  "update_mini_batch net mini_batch learning_rate =
     (let nabla_biases = map zeros_like (biases net);
          nabla_weights = map zeros_like_mat (weights net)
      in
      case split_columns mini_batch of
        Inl e \<Rightarrow> Inl e
      | Inr examples \<Rightarrow>
     (case accumulate net examples nabla_biases nabla_weights of
        Inl e \<Rightarrow> Inl e
      | Inr (nabla_biases', nabla_weights') \<Rightarrow>
     (case truediv learning_rate (length mini_batch) of
        Inl e \<Rightarrow> Inl e
      | Inr rate \<Rightarrow>
     (case collect (map2 (\<lambda>w nws. mat_op (-) w (scale_mat rate nws))
                      (weights net) nabla_weights') of
        Inl e \<Rightarrow> Inl e
      | Inr ws \<Rightarrow>
     (case collect (map2 (\<lambda>b nbs. vec_op (-) b (scale_vec rate nbs))
                      (biases net) nabla_biases') of
        Inl e \<Rightarrow> Inl e
      | Inr bs \<Rightarrow> Inr (net\<lparr>weights := ws, biases := bs\<rparr>))))))"

subsection \<open>Evaluation\<close>

text \<open>\<^verbatim>\<open>np.argmax\<close>: the first index of the greatest entry; an empty array is an
  error.\<close>

fun argmax_loop :: "vec \<Rightarrow> nat \<Rightarrow> nat \<Rightarrow> real \<Rightarrow> nat" where
  "argmax_loop [] i best_i best = best_i"
| "argmax_loop (x # xs) i best_i best =
     (if best < x then argmax_loop xs (Suc i) i x else argmax_loop xs (Suc i) best_i best)"

definition argmax :: "vec \<Rightarrow> error + nat" where
  "argmax v = (case v of [] \<Rightarrow> Inl ValueError | x # xs \<Rightarrow> Inr (argmax_loop xs 1 0 x))"

text \<open>Line 177: the prediction for one example, paired with its label.\<close>

definition predict :: "network \<Rightarrow> vec \<times> real \<Rightarrow> error + (nat \<times> real)" where
  "predict net xy =
     (case forward_feed net (fst xy) of
        Inl e \<Rightarrow> Inl e
      | Inr out \<Rightarrow> (case argmax out of Inl e \<Rightarrow> Inl e | Inr k \<Rightarrow> Inr (k, snd xy)))"

text \<open>\<^verbatim>\<open>Network.evaluate\<close>, lines 172-178, and \<^verbatim>\<open>Network.J_average\<close>, lines
  180-191. Both return their value and the network after the call. The comparison
  \<^verbatim>\<open>x == y\<close> is between the predicted index and the label as numbers.\<close>

definition evaluate :: "network \<Rightarrow> mat \<Rightarrow> error + (real \<times> network)" where
  "evaluate net test_data =
     (let num_test_examples = length test_data in
      case split_columns test_data of
        Inl e \<Rightarrow> Inl e
      | Inr examples \<Rightarrow>
     (case collect (map (predict net) examples) of
        Inl e \<Rightarrow> Inl e
      | Inr test_result \<Rightarrow>
     (case truediv (real (sum_list (map (\<lambda>(x, y). if real x = y then 1 else 0) test_result)))
             num_test_examples of
        Inl e \<Rightarrow> Inl e
      | Inr q \<Rightarrow> Inr (q * 100, net))))"

fun total_cost_loop :: "network \<Rightarrow> (vec \<times> real) list \<Rightarrow> real \<Rightarrow> error + real" where
  "total_cost_loop net [] total_cost = Inr total_cost"
| "total_cost_loop net ((x, y) # rest) total_cost =
     (case forward_feed net x of
        Inl e \<Rightarrow> Inl e
      | Inr output_activation \<Rightarrow>
          (case cost_function output_activation y of
             Inl e \<Rightarrow> Inl e
           | Inr c \<Rightarrow> total_cost_loop net rest (total_cost + c)))"

definition J_average :: "network \<Rightarrow> mat \<Rightarrow> error + (real \<times> network)" where
  "J_average net test_data =
     (let num_test_examples = length test_data in
      case split_columns test_data of
        Inl e \<Rightarrow> Inl e
      | Inr examples \<Rightarrow>
     (case total_cost_loop net examples 0 of
        Inl e \<Rightarrow> Inl e
      | Inr total_cost \<Rightarrow>
     (case truediv total_cost num_test_examples of
        Inl e \<Rightarrow> Inl e
      | Inr q \<Rightarrow> Inr (q, net))))"

subsection \<open>Stochastic gradient descent\<close>

text \<open>\<^verbatim>\<open>range(start, stop, step)\<close> and the slice \<^verbatim>\<open>xs[i:j]\<close>.\<close>

definition py_range :: "int \<Rightarrow> int \<Rightarrow> int \<Rightarrow> error + int list" where
  "py_range start stop step =
     (if step = 0 then Inl ValueError
      else if 0 < step then
        Inr (if start < stop
             then map (\<lambda>i. start + int i * step) [0..<nat ((stop - start - 1) div step + 1)]
             else [])
      else
        Inr (if stop < start
             then map (\<lambda>i. start + int i * step) [0..<nat ((start - stop - 1) div (- step) + 1)]
             else []))"

definition slice_bound :: "nat \<Rightarrow> int \<Rightarrow> nat" where
  "slice_bound n i = (if i < 0 then nat (max 0 (int n + i)) else min n (nat i))"

definition py_slice :: "'a list \<Rightarrow> int \<Rightarrow> int \<Rightarrow> 'a list" where
  "py_slice xs i j =
     (let lo = slice_bound (length xs) i; hi = slice_bound (length xs) j
      in take (hi - lo) (drop lo xs))"

text \<open>Line 72.\<close>

definition mini_batches :: "mat \<Rightarrow> int \<Rightarrow> nat \<Rightarrow> error + mat list" where
  "mini_batches data mini_batch_size num_examples =
     (case py_range 0 (int num_examples) mini_batch_size of
        Inl e \<Rightarrow> Inl e
      | Inr ks \<Rightarrow> Inr (map (\<lambda>k. py_slice data k (k + mini_batch_size)) ks))"

text \<open>Lines 73-74.\<close>

fun run_batches :: "network \<Rightarrow> mat list \<Rightarrow> real \<Rightarrow> error + network" where
  "run_batches net [] learning_rate = Inr net"
| "run_batches net (mini_batch # rest) learning_rate =
     (case update_mini_batch net mini_batch learning_rate of
        Inl e \<Rightarrow> Inl e
      | Inr net' \<Rightarrow> run_batches net' rest learning_rate)"

text \<open>
  Lines 70-84, one turn of the loop for every epoch of the list. \<^verbatim>\<open>np.random.shuffle\<close>
  permutes the rows of the caller's array in place; \<open>shuffle epoch\<close> is the permutation
  drawn in that epoch. The logger and \<^verbatim>\<open>save_neural_network\<close> are sinks outside the
  module (they receive the epoch, the two measures and the network, and are taken to
  return normally and to leave the network alone); \<^verbatim>\<open>output_dir\<close> is used by the
  sink only. What the loop computes for them is kept, since it may raise.
\<close>

fun sgd_epochs ::
  "(nat \<Rightarrow> mat \<Rightarrow> mat) \<Rightarrow> network \<Rightarrow> mat \<Rightarrow> int \<Rightarrow> nat list \<Rightarrow> real \<Rightarrow> mat option \<Rightarrow> nat \<Rightarrow>
   error + (network \<times> mat)" where
  "sgd_epochs shuffle net data mini_batch_size [] learning_rate test_data num_examples =
     Inr (net, data)"
| "sgd_epochs shuffle net data mini_batch_size (epoch # epochs) learning_rate test_data
       num_examples =
     (case mini_batches (shuffle epoch data) mini_batch_size num_examples of
        Inl e \<Rightarrow> Inl e
      | Inr batches \<Rightarrow>
     (case run_batches net batches learning_rate of
        Inl e \<Rightarrow> Inl e
      | Inr net1 \<Rightarrow>
     (case (case test_data of
              None \<Rightarrow> Inr net1
            | Some t \<Rightarrow>
                (case evaluate net1 t of
                   Inl e \<Rightarrow> Inl e
                 | Inr (present_success_tests, net2) \<Rightarrow>
                     (case J_average net2 t of
                        Inl e \<Rightarrow> Inl e
                      | Inr (j_average, net3) \<Rightarrow> Inr net3))) of
        Inl e \<Rightarrow> Inl e
      | Inr net4 \<Rightarrow>
          sgd_epochs shuffle net4 (shuffle epoch data) mini_batch_size epochs learning_rate
            test_data num_examples)))"

text \<open>\<^verbatim>\<open>Network.sgd\<close>, lines 65-88: the value returned, the network and the caller's
  array after the call.\<close>

definition sgd ::
  "(nat \<Rightarrow> mat \<Rightarrow> mat) \<Rightarrow> network \<Rightarrow> mat \<Rightarrow> int \<Rightarrow> int \<Rightarrow> real \<Rightarrow> mat option \<Rightarrow>
   error + (real \<times> network \<times> mat)" where
  "sgd shuffle net data mini_batch_size max_epochs learning_rate test_data =
     (let num_examples = length data in
      case sgd_epochs shuffle net data mini_batch_size [0..<nat max_epochs] learning_rate
             test_data num_examples of
        Inl e \<Rightarrow> Inl e
      | Inr (net', data') \<Rightarrow>
          (case test_data of
             Some t \<Rightarrow>
               (case evaluate net' t of
                  Inl e \<Rightarrow> Inl e
                | Inr (r, net'') \<Rightarrow> Inr (r, net'', data'))
           | None \<Rightarrow> Inr (0, net', data')))"

section \<open>Well-formed networks and the quantities of the specification\<close>

text \<open>
  The invariants of the data model: the layer sizes are positive, there is one weight
  matrix and one bias vector for every transition, the matrix of a transition has one
  row for every neuron of the next layer and one column for every neuron of the layer
  before, and the bias vector is as long as the matrix has rows. \<open>shaped n ws bs\<close>
  says so for the transitions \<open>ws\<close>, \<open>bs\<close> behind a layer of \<open>n\<close> neurons.
\<close>

fun shaped :: "nat \<Rightarrow> mat list \<Rightarrow> vec list \<Rightarrow> bool" where
  "shaped n [] [] = True"
| "shaped n (w # ws) (b # bs) =
     (w \<noteq> [] \<and> list_all (\<lambda>row. length row = n) w \<and> length b = length w \<and>
      shaped (length w) ws bs)"
| "shaped n _ _ = False"

definition input_size :: "network \<Rightarrow> nat" where
  "input_size net = nat (hd (structure net))"

text \<open>The configured functions map an array to an array of the same shape.\<close>

definition well_formed :: "network \<Rightarrow> bool" where
  "well_formed net \<longleftrightarrow>
     num_layers net = length (structure net) \<and> 2 \<le> num_layers net \<and>
     0 < hd (structure net) \<and>
     tl (structure net) = map (\<lambda>w. int (length w)) (weights net) \<and>
     shaped (input_size net) (weights net) (biases net) \<and>
     (\<forall>v. length (activate_function net v) = length v) \<and>
     (\<forall>v. length (activate_derivative net v) = length v)"

text \<open>The arithmetic of the specification on arrays of one shape: the product of a
  matrix and a vector, the elementwise product, and \<open>w \<cdot> a + b\<close>.\<close>

definition mat_vec :: "mat \<Rightarrow> vec \<Rightarrow> vec" where
  "mat_vec w v = map (\<lambda>row. vdot row v) w"

definition hadamard :: "vec \<Rightarrow> vec \<Rightarrow> vec" where
  "hadamard a b = map2 (*) a b"

definition affine :: "mat \<Rightarrow> vec \<Rightarrow> vec \<Rightarrow> vec" where
  "affine w b a = map2 (+) (mat_vec w a) b"

text \<open>
  The traces of the forward pass as the specification describes them: the activation
  entering the first transition is the input, every transition's summatory is
  \<open>w \<cdot> a + b\<close> for the activation \<open>a\<close> entering it, and the activation it hands on is
  the activation function of its summatory.
\<close>

fun summatories :: "(vec \<Rightarrow> vec) \<Rightarrow> mat list \<Rightarrow> vec list \<Rightarrow> vec \<Rightarrow> vec list" where
  "summatories f (w # ws) (b # bs) a = affine w b a # summatories f ws bs (f (affine w b a))"
| "summatories f _ _ a = []"

fun activations :: "(vec \<Rightarrow> vec) \<Rightarrow> mat list \<Rightarrow> vec list \<Rightarrow> vec \<Rightarrow> vec list" where
  "activations f (w # ws) (b # bs) a = a # activations f ws bs (f (affine w b a))"
| "activations f _ _ a = [a]"

definition summatory_trace :: "network \<Rightarrow> vec \<Rightarrow> vec list" where
  "summatory_trace net x = summatories (activate_function net) (weights net) (biases net) x"

definition activation_trace :: "network \<Rightarrow> vec \<Rightarrow> vec list" where
  "activation_trace net x = activations (activate_function net) (weights net) (biases net) x"

text \<open>A label is valid for an example when the configured cost derivative accepts it
  at the final activation and answers with an array of the activation's shape.\<close>

definition valid_label :: "network \<Rightarrow> vec \<Rightarrow> real \<Rightarrow> bool" where
  "valid_label net x y =
     (case net_cost_derivative net (last (activation_trace net x)) y of
        Inl e \<Rightarrow> False
      | Inr c \<Rightarrow> length c = length (last (activation_trace net x)))"

text \<open>A row of a dataset fits a network: as many features as the input layer has
  neurons, then a valid label.\<close>

definition valid_row :: "network \<Rightarrow> vec \<Rightarrow> bool" where
  "valid_row net r \<longleftrightarrow>
     length r = Suc (input_size net) \<and> valid_label net (butlast r) (last r)"

text \<open>The gradients of one row, as \<open>backprop\<close> returns them.\<close>

definition weight_gradient :: "network \<Rightarrow> vec \<Rightarrow> mat list" where
  "weight_gradient net r =
     (case backprop net (butlast r) (last r) of Inl e \<Rightarrow> [] | Inr (nabla_w, nabla_b) \<Rightarrow> nabla_w)"

definition bias_gradient :: "network \<Rightarrow> vec \<Rightarrow> vec list" where
  "bias_gradient net r =
     (case backprop net (butlast r) (last r) of Inl e \<Rightarrow> [] | Inr (nabla_w, nabla_b) \<Rightarrow> nabla_b)"

text \<open>A row is classified correctly when the arg-max of the network's output for its
  features is its label.\<close>

definition classified :: "network \<Rightarrow> vec \<Rightarrow> bool" where
  "classified net r =
     (case forward_feed net (butlast r) of
        Inl e \<Rightarrow> False
      | Inr out \<Rightarrow> (case argmax out of Inl e \<Rightarrow> False | Inr k \<Rightarrow> real k = last r))"

section \<open>Indexing and the cost functions\<close>

lemma py_int_of_int: "py_int (of_int i) = i"
  by (simp add: py_int_def)

lemma py_int_simps:
  "py_int 0 = 0" "py_int 1 = 1" "py_int (- 1) = - 1"
  "py_int (numeral k) = numeral k" "py_int (- numeral k) = - numeral k"
  using py_int_of_int [of 0] py_int_of_int [of 1] py_int_of_int [of "- 1"]
    py_int_of_int [of "numeral k"] py_int_of_int [of "- numeral k"]
  by simp_all

lemma length_zeros_like: "length (zeros_like a) = length a"
  by (simp add: zeros_like_def)

lemma py_index_cases:
  "py_index xs i =
     (if - int (length xs) \<le> i \<and> i < int (length xs)
      then Inr (if 0 \<le> i then nat i else nat (int (length xs) + i)) else Inl IndexError)"
  by (auto simp: py_index_def Let_def)

text \<open>
  C3, as the code has it. \<open>cost_function\<close> and \<open>cost_derivative\<close> fail, with
  IndexError, exactly when the truncated target index \<open>t\<close> is at least the length \<open>n\<close> of
  the output vector or below \<open>-n\<close>; for every index with \<open>-n \<le> t < n\<close> both return a
  value. The indices \<open>-n \<le> t < 0\<close> are no positions of the vector, and are accepted.
\<close>

theorem cost_index_error:
  fixes a :: vec and t :: real
  shows "(py_int t < - int (length a) \<or> int (length a) \<le> py_int t \<longrightarrow>
            cost_function a t = Inl IndexError \<and> cost_derivative a t = Inl IndexError) \<and>
         (- int (length a) \<le> py_int t \<and> py_int t < int (length a) \<longrightarrow>
            (\<exists>c. cost_function a t = Inr c) \<and>
            (\<exists>d. cost_derivative a t = Inr d \<and> length d = length a))"
proof (intro conjI impI)
  assume out: "py_int t < - int (length a) \<or> int (length a) \<le> py_int t"
  then have "py_set (zeros_like a) (py_int t) (1::real) = Inl IndexError"
    by (auto simp: py_set_def py_index_cases length_zeros_like)
  then show "cost_function a t = Inl IndexError" "cost_derivative a t = Inl IndexError"
    by (simp_all add: cost_function_def cost_derivative_def)
next
  assume "- int (length a) \<le> py_int t \<and> py_int t < int (length a)"
  then obtain y where y: "py_set (zeros_like a) (py_int t) (1::real) = Inr y"
    and len: "length y = length a"
    by (auto simp: py_set_def py_index_cases length_zeros_like)
  have "cost_function a t = Inr (0.5 * sum_list (map (\<lambda>d. d ^ 2) (map2 (-) a y)))"
    using y by (simp add: cost_function_def)
  then show "\<exists>c. cost_function a t = Inr c" by blast
  have "cost_derivative a t = Inr (map2 (-) a y)"
    using y by (simp add: cost_derivative_def)
  then show "\<exists>d. cost_derivative a t = Inr d \<and> length d = length a"
    using len by simp
qed

theorem cost_index_error_witness:
  "cost_function [0.5, 0.5] 2 = Inl IndexError \<and>
   cost_derivative [0.5, 0.5] 2 = Inl IndexError \<and>
   (\<exists>c. cost_function [0.5, 0.5] (- 2) = Inr c) \<and>
   (\<exists>d. cost_derivative [0.5, 0.5] (- 2) = Inr d \<and> length d = length [0.5, 0.5 :: real])"
  using cost_index_error [of 2 "[0.5, 0.5]"] cost_index_error [of "- 2" "[0.5, 0.5]"]
  by (simp add: py_int_simps)

text \<open>The target index \<open>-1\<close> is out of bounds for an output vector of length 2, and
  both functions return a value for it.\<close>

theorem cost_index_counterexample:
  "\<not> (0 \<le> py_int (- 1) \<and> py_int (- 1) < int (length [0.5, 0.5 :: real])) \<and>
   cost_function [0.5, 0.5] (- 1) = Inr 0.25 \<and>
   cost_derivative [0.5, 0.5] (- 1) = Inr [0.5, - 0.5]"
  by (simp add: cost_function_def cost_derivative_def py_set_def py_index_def py_int_simps
      zeros_like_def power2_eq_square)

text \<open>
  C8. For an output vector of length \<open>n\<close> and an integer target index \<open>i\<close> with
  \<open>-n \<le> i < 0\<close>, \<open>cost_function\<close> and \<open>cost_derivative\<close> return the values for the
  one-hot vector with its 1 at position \<open>n + i\<close>; each of them fails exactly when
  \<open>i \<ge> n\<close> or \<open>i < -n\<close>.
\<close>

theorem cost_index_wraps:
  fixes a :: vec and i :: int
  shows "(- int (length a) \<le> i \<and> i < 0 \<longrightarrow>
            cost_function a (of_int i) =
              Inr (0.5 * sum_list (map (\<lambda>d. d ^ 2)
                     (map2 (-) a ((replicate (length a) 0)[nat (int (length a) + i) := 1])))) \<and>
            cost_derivative a (of_int i) =
              Inr (map2 (-) a ((replicate (length a) 0)[nat (int (length a) + i) := 1]))) \<and>
         ((\<exists>e. cost_function a (of_int i) = Inl e) \<longleftrightarrow>
            int (length a) \<le> i \<or> i < - int (length a)) \<and>
         ((\<exists>e. cost_derivative a (of_int i) = Inl e) \<longleftrightarrow>
            int (length a) \<le> i \<or> i < - int (length a))"
  by (auto simp: cost_function_def cost_derivative_def py_set_def py_index_cases
      py_int_of_int zeros_like_def map_replicate_const)

theorem cost_index_wraps_witness:
  "cost_function [0.25, 0.5, 1] (of_int (- 2)) = Inr (0.5 * (0.0625 + 0.25 + 1)) \<and>
   cost_derivative [0.25, 0.5, 1] (of_int (- 2)) = Inr [0.25, - 0.5, 1] \<and>
   (\<exists>e. cost_function [0.25, 0.5, 1] (of_int 3) = Inl e) \<and>
   (\<exists>e. cost_derivative [0.25, 0.5, 1] (of_int (- 4)) = Inl e)"
  using cost_index_wraps [of "[0.25, 0.5, 1]" "- 2"] cost_index_wraps [of "[0.25, 0.5, 1]" 3]
    cost_index_wraps [of "[0.25, 0.5, 1]" "- 4"]
  by (simp add: power2_eq_square)

section \<open>Construction\<close>

lemma init_weights_ok:
  assumes "\<forall>layer\<in>set layers. 0 \<le> struct ! layer \<and> 0 \<le> struct ! (layer - 1)"
  shows "\<exists>ws g'. init_weights struct layers g = Inr (ws, g') \<and> length ws = length layers"
  using assms
proof (induction layers arbitrary: g)
  case Nil
  then show ?case by simp
next
  case (Cons layer layers)
  obtain w g1 where w: "randn_mat (struct ! layer) (struct ! (layer - 1)) g = Inr (w, g1)"
    using Cons.prems by (auto simp: randn_mat_def)
  obtain ws g2 where "init_weights struct layers g1 = Inr (ws, g2)" "length ws = length layers"
    using Cons.IH [of g1] Cons.prems by auto
  with w show ?case by simp
qed

lemma init_biases_ok:
  assumes "\<forall>layer\<in>set layers. 0 \<le> struct ! layer"
  shows "\<exists>bs g'. init_biases struct layers g = Inr (bs, g') \<and> length bs = length layers"
  using assms
proof (induction layers arbitrary: g)
  case Nil
  then show ?case by simp
next
  case (Cons layer layers)
  obtain b g1 where b: "randn_vec (struct ! layer) g = Inr (b, g1)"
    using Cons.prems by (auto simp: randn_vec_def)
  obtain bs g2 where "init_biases struct layers g1 = Inr (bs, g2)" "length bs = length layers"
    using Cons.IH [of g1] Cons.prems by auto
  with b show ?case by simp
qed

lemma random_construction:
  assumes "\<forall>n\<in>set struct. 0 \<le> n"
  shows "\<exists>net g'. Network struct None None f f' c g = Inr (net, g') \<and>
           num_layers net = length struct \<and>
           length (weights net) = length struct - 1 \<and>
           length (biases net) = length struct - 1"
proof -
  have nth: "\<forall>layer\<in>set [1..<length struct]. 0 \<le> struct ! layer \<and> 0 \<le> struct ! (layer - 1)"
  proof
    fix layer assume "layer \<in> set [1..<length struct]"
    then have "layer < length struct" "layer - 1 < length struct" by auto
    then show "0 \<le> struct ! layer \<and> 0 \<le> struct ! (layer - 1)"
      using assms nth_mem by blast
  qed
  obtain ws g1 where ws: "init_weights struct [1..<length struct] g = Inr (ws, g1)"
      "length ws = length [1..<length struct]"
    using init_weights_ok [OF nth] by blast
  obtain bs g2 where bs: "init_biases struct [1..<length struct] g1 = Inr (bs, g2)"
      "length bs = length [1..<length struct]"
    using init_biases_ok [of "[1..<length struct]" struct g1] nth by blast
  show ?thesis using ws bs by (simp add: Network_def Let_def)
qed

text \<open>
  C4, as the code has it. The constructor checks nothing about the layer structure.
  With weights and biases supplied it succeeds for every structure and keeps the three
  as they are; with random initialisation it succeeds for every structure that has no
  negative entry, of any length. The network has \<open>num_layers = len(structure)\<close>; the
  random initialisation makes \<open>len(structure) - 1\<close> weight matrices and bias vectors,
  none for a structure of fewer than two layers.
\<close>

theorem construction_accepts_every_length:
  "(\<exists>net. Network struct (Some ws) (Some bs) f f' c g = Inr (net, g) \<and>
      num_layers net = length struct \<and> weights net = ws \<and> biases net = bs) \<and>
   ((\<forall>n\<in>set struct. 0 \<le> n) \<longrightarrow>
      (\<exists>net g'. Network struct None None f f' c g = Inr (net, g') \<and>
         num_layers net = length struct \<and>
         length (weights net) = length struct - 1 \<and>
         length (biases net) = length struct - 1))"
  using random_construction [of struct f f' c g] by (simp add: Network_def Let_def)

theorem construction_accepts_every_length_witness:
  "(\<exists>net. Network [3] (Some []) (Some []) (map sigmoid) (map sigmoid_derivative)
            cost_derivative (\<lambda>k. 0) = Inr (net, \<lambda>k. 0) \<and> num_layers net = 1) \<and>
   (\<exists>net g'. Network [3] None None (map sigmoid) (map sigmoid_derivative)
            cost_derivative (\<lambda>k. 0) = Inr (net, g') \<and>
            num_layers net = 1 \<and> length (weights net) = 0 \<and> length (biases net) = 0)"
  using construction_accepts_every_length
    [of "[3]" "[]" "[]" "map sigmoid" "map sigmoid_derivative" cost_derivative "\<lambda>k. 0"]
  by auto

text \<open>A structure of one layer, and the empty structure, are accepted.\<close>

theorem construction_counterexample:
  "Network [3] None None (map sigmoid) (map sigmoid_derivative) cost_derivative (\<lambda>k. 0) =
     Inr (\<lparr>num_layers = 1, structure = [3], activate_function = map sigmoid,
           activate_derivative = map sigmoid_derivative,
           net_cost_derivative = cost_derivative, weights = [], biases = []\<rparr>, \<lambda>k. 0) \<and>
   Network [] None None (map sigmoid) (map sigmoid_derivative) cost_derivative (\<lambda>k. 0) =
     Inr (\<lparr>num_layers = 0, structure = [], activate_function = map sigmoid,
           activate_derivative = map sigmoid_derivative,
           net_cost_derivative = cost_derivative, weights = [], biases = []\<rparr>, \<lambda>k. 0)"
  by (simp add: Network_def)

section \<open>Empty datasets and mini-batches\<close>

text \<open>
  C9. On a dataset without rows \<open>evaluate\<close> and \<open>J_average\<close> fail with
  ZeroDivisionError: nothing guards the final division by the number of rows.
\<close>

theorem empty_dataset_divides_by_zero:
  "evaluate net [] = Inl ZeroDivisionError \<and> J_average net [] = Inl ZeroDivisionError"
  by (simp add: evaluate_def J_average_def split_columns_def truediv_def)

lemma range_start_below:
  fixes n step :: int
  assumes "1 \<le> step" "1 \<le> n" "i < nat ((n - 1) div step + 1)"
  shows "0 \<le> int i * step \<and> int i * step < n"
proof -
  have "int i \<le> (n - 1) div step" using assms by linarith
  then have "int i * step \<le> ((n - 1) div step) * step"
    using assms(1) by (simp add: mult_right_mono)
  moreover have "(n - 1) div step * step = (n - 1) - (n - 1) mod step"
    by (simp add: minus_mod_eq_div_mult)
  moreover have "0 \<le> (n - 1) mod step"
    using assms(1) by simp
  ultimately have "int i * step < n" by linarith
  moreover have "0 \<le> int i * step" using assms(1) by simp
  ultimately show ?thesis by simp
qed

lemma slice_nonempty:
  assumes "0 \<le> k" "k < int (length xs)" "1 \<le> step"
  shows "py_slice xs k (k + step) \<noteq> []"
  using assms by (auto simp: py_slice_def slice_bound_def Let_def min_def)

lemma mini_batches_value:
  assumes "1 \<le> mini_batch_size"
  shows "mini_batches d mini_batch_size n =
           Inr (map (\<lambda>k. py_slice d k (k + mini_batch_size))
                  (if 0 < n then map (\<lambda>i. int i * mini_batch_size)
                                  [0..<nat ((int n - 1) div mini_batch_size + 1)] else []))"
  using assms by (simp add: mini_batches_def py_range_def)

text \<open>What line 72 cuts from an array \<open>d\<close> holding the rows of \<open>data\<close> in some order, for
  the row count of \<open>data\<close>: every slice starts below the number of rows and is
  non-empty.\<close>

lemma mini_batches_nonempty:
  assumes "1 \<le> mini_batch_size" and "data \<noteq> []" and "mset d = mset data"
  shows "\<exists>batches. mini_batches d mini_batch_size (length data) = Inr batches \<and>
           batches \<noteq> [] \<and>
           (\<forall>b\<in>set batches. b \<noteq> [] \<and>
              truediv learning_rate (length b) = Inr (learning_rate / real (length b)))"
proof -
  have len: "length d = length data"
    using assms(3) by (metis size_mset)
  have pos: "0 < length data" using assms(2) by simp
  let ?ks = "map (\<lambda>i. int i * mini_batch_size)
               [0..<nat ((int (length data) - 1) div mini_batch_size + 1)]"
  let ?bs = "map (\<lambda>k. py_slice d k (k + mini_batch_size)) ?ks"
  have val: "mini_batches d mini_batch_size (length data) = Inr ?bs"
    using mini_batches_value [OF assms(1)] pos by simp
  have "0 \<le> (int (length data) - 1) div mini_batch_size"
    using assms(1) pos by (simp add: pos_imp_zdiv_nonneg_iff)
  then have ne: "?bs \<noteq> []" by simp
  have "py_slice d (int i * mini_batch_size) (int i * mini_batch_size + mini_batch_size) \<noteq> []"
    if i: "i < nat ((int (length data) - 1) div mini_batch_size + 1)" for i
  proof -
    have "0 \<le> int i * mini_batch_size \<and> int i * mini_batch_size < int (length data)"
      using range_start_below [OF assms(1) _ i] pos by simp
    then show ?thesis
      using slice_nonempty [of "int i * mini_batch_size" d mini_batch_size] assms(1) len
      by simp
  qed
  then have "\<forall>b\<in>set ?bs. b \<noteq> [] \<and>
      truediv learning_rate (length b) = Inr (learning_rate / real (length b))"
    by (simp add: truediv_def)
  with val ne show ?thesis by blast
qed

section \<open>Training for no epoch\<close>

lemma evaluate_network: "evaluate net t = Inr (r, net') \<Longrightarrow> net' = net"
  by (auto simp: evaluate_def Let_def split: sum.splits)

text \<open>
  C5. With \<open>max_epochs = 0\<close> the loop of \<open>sgd\<close> is not entered: the network (all its
  weights and biases) and the caller's array are as before, and the call returns 0
  without test data, and otherwise what \<open>evaluate\<close> returns for the test data on the
  untrained network, its failure included.
\<close>

theorem sgd_no_epochs:
  "sgd shuffle net data mini_batch_size 0 learning_rate None = Inr (0, net, data) \<and>
   sgd shuffle net data mini_batch_size 0 learning_rate (Some test_data) =
     (case evaluate net test_data of Inl e \<Rightarrow> Inl e | Inr (r, net') \<Rightarrow> Inr (r, net, data))"
  by (auto simp: sgd_def Let_def split: sum.splits dest: evaluate_network)

section \<open>Arrays of agreeing shapes\<close>

lemma dot_ok:
  "list_all (\<lambda>row. length row = length v) w \<Longrightarrow> dot w v = Inr (mat_vec w v)"
  by (simp add: dot_def mat_vec_def)

lemma vec_op_ok: "length a = length b \<Longrightarrow> vec_op f a b = Inr (map2 f a b)"
  by (simp add: vec_op_def)

lemma length_mat_vec: "length (mat_vec w v) = length w"
  by (simp add: mat_vec_def)

lemma length_affine: "length b = length w \<Longrightarrow> length (affine w b a) = length w"
  by (simp add: affine_def length_mat_vec)

lemma length_hadamard: "length a = length b \<Longrightarrow> length (hadamard a b) = length a"
  by (simp add: hadamard_def)

lemma py_get_from_end:
  assumes "1 \<le> k" "k \<le> length xs"
  shows "py_get xs (- int k) = Inr (xs ! (length xs - k))"
proof -
  have "nat (int (length xs) - int k) = length xs - k" using assms by linarith
  then show ?thesis using assms by (simp add: py_get_def py_index_def)
qed

lemma py_set_from_end:
  assumes "1 \<le> k" "k \<le> length xs"
  shows "py_set xs (- int k) v = Inr (xs[length xs - k := v])"
proof -
  have "nat (int (length xs) - int k) = length xs - k" using assms by linarith
  then show ?thesis using assms by (simp add: py_set_def py_index_def)
qed

lemma transpose_mat_shape:
  assumes "w \<noteq> []" "list_all (\<lambda>row. length row = n) w"
  shows "length (transpose_mat w) = n \<and>
         list_all (\<lambda>row. length row = length w) (transpose_mat w)"
  using assms by (cases w) (auto simp: transpose_mat_def list_all_iff)

lemma shaped_length: "shaped n ws bs \<Longrightarrow> length bs = length ws"
  by (induction n ws bs rule: shaped.induct) auto

lemma length_summatories: "length bs = length ws \<Longrightarrow> length (summatories f ws bs a) = length ws"
  by (induction f ws bs a rule: summatories.induct) auto

lemma length_activations:
  "length bs = length ws \<Longrightarrow> length (activations f ws bs a) = Suc (length ws)"
  by (induction f ws bs a rule: activations.induct) auto

lemma activations_hd: "activations f ws bs a ! 0 = a"
  by (induction f ws bs a rule: activations.induct) auto

lemma activations_Cons: "activations f ws bs a = a # tl (activations f ws bs a)"
  by (induction f ws bs a rule: activations.induct) auto

lemma forward_trace_eq:
  assumes "shaped n ws bs" "length a = n" "\<forall>v. length (f v) = length v"
  shows "forward_trace f (zip ws bs) a am sm =
           Inr (am @ tl (activations f ws bs a), sm @ summatories f ws bs a)"
  using assms
proof (induction n ws bs arbitrary: a am sm rule: shaped.induct)
  case (1 n)
  then show ?case by simp
next
  case (2 n w ws b bs)
  have d: "dot w a = Inr (mat_vec w a)"
    using 2 by (simp add: dot_ok)
  have s: "vec_op (+) (mat_vec w a) b = Inr (affine w b a)"
    using 2 by (simp add: vec_op_ok affine_def length_mat_vec)
  have len: "length (f (affine w b a)) = length w"
    using 2 by (simp add: length_affine)
  have "forward_trace f (zip ws bs) (f (affine w b a)) (am @ [f (affine w b a)])
          (sm @ [affine w b a]) =
        Inr ((am @ [f (affine w b a)]) @ tl (activations f ws bs (f (affine w b a))),
             (sm @ [affine w b a]) @ summatories f ws bs (f (affine w b a)))"
    using 2 len by (intro "2.IH") auto
  moreover have "activations f ws bs (f (affine w b a)) =
      f (affine w b a) # tl (activations f ws bs (f (affine w b a)))"
    by (rule activations_Cons)
  ultimately show ?case using d s by simp
qed simp_all

lemma trace_recurrence:
  assumes "length bs = length ws" "l < length ws"
  shows "summatories f ws bs a ! l = affine (ws ! l) (bs ! l) (activations f ws bs a ! l) \<and>
         activations f ws bs a ! Suc l = f (summatories f ws bs a ! l)"
  using assms
proof (induction f ws bs a arbitrary: l rule: summatories.induct)
  case (1 f w ws b bs a)
  then show ?case by (cases l) (auto simp: activations_hd)
qed simp_all

lemma trace_shapes:
  assumes "shaped n ws bs" "length a = n" "\<forall>v. length (f v) = length v" "l < length ws"
  shows "ws ! l \<noteq> [] \<and>
         list_all (\<lambda>row. length row = length (activations f ws bs a ! l)) (ws ! l) \<and>
         length (bs ! l) = length (ws ! l) \<and>
         length (summatories f ws bs a ! l) = length (ws ! l) \<and>
         length (activations f ws bs a ! Suc l) = length (ws ! l)"
  using assms
proof (induction n ws bs arbitrary: a l rule: shaped.induct)
  case (2 n w ws b bs)
  show ?case
  proof (cases l)
    case 0
    then show ?thesis using 2 by (simp add: length_affine activations_hd)
  next
    case (Suc m)
    have "length (f (affine w b a)) = length w" using 2 by (simp add: length_affine)
    then show ?thesis using 2 Suc by simp
  qed
qed simp_all

section \<open>Backpropagation\<close>

text \<open>The invariant of the backward loop: after the layers \<open>2 \<dots> k\<close> the last \<open>k\<close>
  entries of both gradient lists are final, and the loop fills the entries before them
  by the recurrence.\<close>

lemma backward_loop_ok:
  assumes lenA: "length A = Suc L" and lenS: "length S = L"
    and lenW: "length (weights net) = L"
    and shp: "\<forall>l<L. weights net ! l \<noteq> [] \<and>
                list_all (\<lambda>row. length row = length (A ! l)) (weights net ! l) \<and>
                length (S ! l) = length (weights net ! l) \<and>
                length (A ! Suc l) = length (weights net ! l)"
    and der: "\<forall>v. length (activate_derivative net v) = length v"
    and k: "1 \<le> k" "k \<le> L"
    and lens: "length nb = L" "length nw = L"
    and delta: "delta = nb ! (L - k)" "length delta = length (weights net ! (L - k))"
  shows "\<exists>nw' nb'.
     backward_loop net A S (map int [Suc k..<Suc L]) delta nb nw = Inr (nw', nb') \<and>
     length nb' = L \<and> length nw' = L \<and>
     (\<forall>l. L - k \<le> l \<and> l < L \<longrightarrow> nb' ! l = nb ! l \<and> nw' ! l = nw ! l) \<and>
     (\<forall>l<L - k.
        nb' ! l = hadamard (mat_vec (transpose_mat (weights net ! Suc l)) (nb' ! Suc l))
                    (activate_derivative net (S ! l)) \<and>
        nw' ! l = outer (nb' ! l) (A ! l) \<and>
        length (nb' ! l) = length (weights net ! l))"
  using k lens delta
proof (induction "L - k" arbitrary: k delta nb nw)
  case 0
  then have "k = L" by simp
  then show ?case using 0 by simp
next
  case (Suc m)
  have kL: "k < L" using Suc.hyps(2) by simp
  define i where "i = L - Suc k"
  have i: "Suc i = L - k" "i < L" "Suc i < Suc L" using kL by (simp_all add: i_def)
  define w where "w = weights net ! (L - k)"
  define pulled where "pulled = mat_vec (transpose_mat w) delta"
  define delta' where "delta' = hadamard pulled (activate_derivative net (S ! i))"
  have upt: "map int [Suc k..<Suc L] = int (Suc k) # map int [Suc (Suc k)..<Suc L]"
    using kL by (simp add: upt_conv_Cons)
  have neg: "- int (Suc k) + 1 = - int k" "- int (Suc k) - 1 = - int (Suc (Suc k))"
    by simp_all
  have wshape: "w \<noteq> []" "list_all (\<lambda>row. length row = length (A ! (L - k))) w"
    using shp Suc.prems(1) kL by (simp_all add: w_def)
  have g1: "py_get (weights net) (- int k) = Inr w"
    using py_get_from_end [of k "weights net"] Suc.prems lenW by (simp add: w_def)
  have tshape: "length (transpose_mat w) = length (A ! (L - k))"
      "list_all (\<lambda>row. length row = length delta) (transpose_mat w)"
    using transpose_mat_shape [OF wshape] Suc.prems(6) by (simp_all add: w_def)
  have d1: "dot (transpose_mat w) delta = Inr pulled"
    using dot_ok [OF tshape(2)] by (simp add: pulled_def)
  have g2: "py_get S (- int (Suc k)) = Inr (S ! i)"
    using py_get_from_end [of "Suc k" S] kL lenS by (simp add: i_def)
  have Ai: "length (A ! (L - k)) = length (weights net ! i)"
    using shp i by (metis)
  have lpulled: "length pulled = length (weights net ! i)"
    using tshape(1) Ai by (simp add: pulled_def length_mat_vec)
  have lder: "length (activate_derivative net (S ! i)) = length (weights net ! i)"
    using der shp i(2) by simp
  have v1: "vec_op (*) pulled (activate_derivative net (S ! i)) = Inr delta'"
    using lpulled lder by (simp add: vec_op_ok delta'_def hadamard_def)
  have ldelta': "length delta' = length (weights net ! i)"
    using lpulled lder by (simp add: delta'_def length_hadamard)
  have s1: "py_set nb (- int (Suc k)) delta' = Inr (nb[i := delta'])"
    using py_set_from_end [of "Suc k" nb] kL Suc.prems(3) by (simp add: i_def)
  have g3: "py_get A (- int (Suc (Suc k))) = Inr (A ! i)"
    using py_get_from_end [of "Suc (Suc k)" A] kL lenA by (simp add: i_def)
  have s2: "py_set nw (- int (Suc k)) (outer delta' (A ! i)) = Inr (nw[i := outer delta' (A ! i)])"
    using py_set_from_end [of "Suc k" nw] kL Suc.prems(4) by (simp add: i_def)
  have step: "backward_loop net A S (map int [Suc k..<Suc L]) delta nb nw =
      backward_loop net A S (map int [Suc (Suc k)..<Suc L]) delta'
        (nb[i := delta']) (nw[i := outer delta' (A ! i)])"
    unfolding upt by (simp only: backward_loop.simps neg g1 d1 g2 v1 s1 g3 s2 sum.case)
  have m: "m = L - Suc k" using Suc.hyps(2) by simp
  obtain nw' nb' where
    run: "backward_loop net A S (map int [Suc (Suc k)..<Suc L]) delta'
            (nb[i := delta']) (nw[i := outer delta' (A ! i)]) = Inr (nw', nb')"
    and len': "length nb' = L" "length nw' = L"
    and keep: "\<forall>l. L - Suc k \<le> l \<and> l < L \<longrightarrow>
                 nb' ! l = nb[i := delta'] ! l \<and> nw' ! l = nw[i := outer delta' (A ! i)] ! l"
    and rec: "\<forall>l<L - Suc k.
        nb' ! l = hadamard (mat_vec (transpose_mat (weights net ! Suc l)) (nb' ! Suc l))
                    (activate_derivative net (S ! l)) \<and>
        nw' ! l = outer (nb' ! l) (A ! l) \<and>
        length (nb' ! l) = length (weights net ! l)"
    using Suc.hyps(1) [OF m, of "nb[i := delta']" "nw[i := outer delta' (A ! i)]" delta']
      kL Suc.prems(3,4) ldelta' i(2) by (auto simp: i_def)
  have keep_i: "nb' ! i = delta'" "nw' ! i = outer delta' (A ! i)"
    using keep i(2) Suc.prems(3,4) by (simp_all add: i_def)
  have keep_hi: "nb' ! l = nb ! l \<and> nw' ! l = nw ! l" if "L - k \<le> l" "l < L" for l
  proof -
    have "l \<noteq> i" "L - Suc k \<le> l" using that i(1) by (simp_all add: i_def)
    then show ?thesis using keep that by simp
  qed
  have at_i: "nb' ! i = hadamard (mat_vec (transpose_mat (weights net ! Suc i)) (nb' ! Suc i))
                    (activate_derivative net (S ! i))"
  proof -
    have "nb' ! Suc i = delta"
      using keep_hi [of "L - k"] kL Suc.prems(1,5) i(1) by simp
    then show ?thesis
      using keep_i(1) i(1) by (simp add: delta'_def pulled_def w_def)
  qed
  have low: "nb' ! l = hadamard (mat_vec (transpose_mat (weights net ! Suc l)) (nb' ! Suc l))
                    (activate_derivative net (S ! l)) \<and>
        nw' ! l = outer (nb' ! l) (A ! l) \<and>
        length (nb' ! l) = length (weights net ! l)" if "l < L - k" for l
  proof (cases "l = i")
    case True
    then show ?thesis using at_i keep_i ldelta' by simp
  next
    case False
    then have "l < L - Suc k" using that by (simp add: i_def)
    then show ?thesis using rec by blast
  qed
  have run': "backward_loop net A S (map int [Suc k..<Suc L]) delta nb nw = Inr (nw', nb')"
    using step run by (simp only:)
  show ?case
    using run' len' keep_hi low by blast
qed

lemma well_formed_layers:
  assumes "well_formed net"
  shows "1 \<le> length (weights net)" "num_layers net = Suc (length (weights net))"
    "length (biases net) = length (weights net)"
proof -
  have "length (tl (structure net)) = length (weights net)"
    using assms by (simp add: well_formed_def)
  then have a: "length (structure net) - 1 = length (weights net)" by simp
  have b: "2 \<le> length (structure net)" "num_layers net = length (structure net)"
    using assms by (simp_all add: well_formed_def)
  show "1 \<le> length (weights net)" using a b by linarith
  show "num_layers net = Suc (length (weights net))" using a b by linarith
  show "length (biases net) = length (weights net)"
    using assms by (auto simp: well_formed_def dest: shaped_length)
qed

lemma backprop_result:
  assumes wf: "well_formed net" and lx: "length x = input_size net"
    and vl: "valid_label net x y"
  shows "\<exists>nabla_w nabla_b c.
     backprop net x y = Inr (nabla_w, nabla_b) \<and>
     net_cost_derivative net (last (activation_trace net x)) y = Inr c \<and>
     length nabla_b = length (weights net) \<and> length nabla_w = length (weights net) \<and>
     nabla_b ! (length (weights net) - 1) =
       hadamard c (activate_derivative net (summatory_trace net x ! (length (weights net) - 1))) \<and>
     (\<forall>l. Suc l < length (weights net) \<longrightarrow>
        nabla_b ! l = hadamard (mat_vec (transpose_mat (weights net ! Suc l)) (nabla_b ! Suc l))
                        (activate_derivative net (summatory_trace net x ! l))) \<and>
     (\<forall>l<length (weights net). nabla_w ! l = outer (nabla_b ! l) (activation_trace net x ! l)) \<and>
     (\<forall>l<length (weights net). length (nabla_b ! l) = length (weights net ! l))"
proof -
  define L where "L = length (weights net)"
  define A where "A = activation_trace net x"
  define S where "S = summatory_trace net x"
  define f where "f = activate_function net"
  have L1: "1 \<le> L" and nl: "num_layers net = Suc L" and lb: "length (biases net) = L"
    using well_formed_layers [OF wf] by (simp_all add: L_def)
  have sh: "shaped (input_size net) (weights net) (biases net)"
    and fl: "\<forall>v. length (f v) = length v"
    and der: "\<forall>v. length (activate_derivative net v) = length v"
    using wf by (simp_all add: well_formed_def f_def)
  have lenA: "length A = Suc L"
    using lb by (simp add: A_def activation_trace_def length_activations L_def)
  have lenS: "length S = L"
    using lb by (simp add: S_def summatory_trace_def length_summatories L_def)
  have shp: "\<forall>l<L. weights net ! l \<noteq> [] \<and>
                 list_all (\<lambda>row. length row = length (A ! l)) (weights net ! l) \<and>
                 length (S ! l) = length (weights net ! l) \<and>
                 length (A ! Suc l) = length (weights net ! l)"
    using trace_shapes [OF sh lx [symmetric, THEN sym] fl]
    by (simp add: A_def S_def activation_trace_def summatory_trace_def f_def L_def)
  have tr: "forward_trace (activate_function net) (zip (weights net) (biases net)) x [x] [] =
      Inr (A, S)"
  proof -
    have "forward_trace f (zip (weights net) (biases net)) x [x] [] =
        Inr ([x] @ tl (activations f (weights net) (biases net) x),
             [] @ summatories f (weights net) (biases net) x)"
      using sh lx fl by (rule forward_trace_eq)
    moreover have "activations f (weights net) (biases net) x =
        x # tl (activations f (weights net) (biases net) x)"
      by (rule activations_Cons)
    ultimately show ?thesis
      by (simp add: A_def S_def activation_trace_def summatory_trace_def f_def)
  qed
  have "A \<noteq> []" using lenA by auto
  then have lastA: "last A = A ! L"
    using lenA by (simp add: last_conv_nth)
  have g1: "py_get A (- 1) = Inr (last A)"
    using py_get_from_end [of 1 A] lenA lastA by simp
  obtain c where c: "net_cost_derivative net (last A) y = Inr c"
    and lc: "length c = length (last A)"
    using vl by (auto simp: valid_label_def A_def split: sum.splits)
  have g2: "py_get S (- 1) = Inr (S ! (L - 1))"
    using py_get_from_end [of 1 S] lenS L1 by simp
  define delta where "delta = hadamard c (activate_derivative net (S ! (L - 1)))"
  have lshape: "length (last A) = length (weights net ! (L - 1))"
    "length (S ! (L - 1)) = length (weights net ! (L - 1))"
    using shp [rule_format, of "L - 1"] L1 lastA by simp_all
  have v1: "vec_op (*) c (activate_derivative net (S ! (L - 1))) = Inr delta"
    using lc lshape der by (simp add: vec_op_ok delta_def hadamard_def)
  have ldelta: "length delta = length (weights net ! (L - 1))"
    using lc lshape der by (simp add: delta_def length_hadamard)
  define nb0 where "nb0 = map zeros_like (biases net)"
  define nw0 where "nw0 = map zeros_like_mat (weights net)"
  have l0: "length nb0 = L" "length nw0 = L"
    using lb by (simp_all add: nb0_def nw0_def L_def)
  have s1: "py_set nb0 (- 1) delta = Inr (nb0[L - 1 := delta])"
    using py_set_from_end [of 1 nb0] l0 L1 by simp
  have g3: "py_get A (- 2) = Inr (A ! (L - 1))"
    using py_get_from_end [of 2 A] lenA L1 by simp
  have s2: "py_set nw0 (- 1) (outer delta (A ! (L - 1))) =
      Inr (nw0[L - 1 := outer delta (A ! (L - 1))])"
    using py_set_from_end [of 1 nw0] l0 L1 by simp
  have two: "[2..<Suc L] = [Suc 1..<Suc L]" by (simp add: numeral_2_eq_2)
  have bp: "backprop net x y =
      backward_loop net A S (map int [Suc 1..<Suc L]) delta (nb0[L - 1 := delta])
        (nw0[L - 1 := outer delta (A ! (L - 1))])"
    unfolding backprop_def Let_def nb0_def [symmetric] nw0_def [symmetric]
    by (simp only: tr sum.case prod.case g1 c g2 v1 s1 g3 s2 nl two)
  obtain nw' nb' where
    run: "backward_loop net A S (map int [Suc 1..<Suc L]) delta (nb0[L - 1 := delta])
        (nw0[L - 1 := outer delta (A ! (L - 1))]) = Inr (nw', nb')"
    and len': "length nb' = L" "length nw' = L"
    and keep: "\<forall>l. L - 1 \<le> l \<and> l < L \<longrightarrow>
        nb' ! l = nb0[L - 1 := delta] ! l \<and> nw' ! l = nw0[L - 1 := outer delta (A ! (L - 1))] ! l"
    and rec: "\<forall>l<L - 1.
        nb' ! l = hadamard (mat_vec (transpose_mat (weights net ! Suc l)) (nb' ! Suc l))
                    (activate_derivative net (S ! l)) \<and>
        nw' ! l = outer (nb' ! l) (A ! l) \<and>
        length (nb' ! l) = length (weights net ! l)"
    using backward_loop_ok [where k = 1 and nb = "nb0[L - 1 := delta]"
          and nw = "nw0[L - 1 := outer delta (A ! (L - 1))]" and delta = delta,
        OF lenA lenS L_def [symmetric] shp der]
      l0 ldelta L1 by auto
  have top: "nb' ! (L - 1) = delta" "nw' ! (L - 1) = outer delta (A ! (L - 1))"
    using keep [rule_format, of "L - 1"] L1 l0 by simp_all
  have r1: "\<forall>l. Suc l < L \<longrightarrow>
        nb' ! l = hadamard (mat_vec (transpose_mat (weights net ! Suc l)) (nb' ! Suc l))
                        (activate_derivative net (S ! l))"
    using rec by (simp add: less_diff_conv)
  have r2: "nw' ! l = outer (nb' ! l) (A ! l)" if "l < L" for l
  proof (cases "l = L - 1")
    case True
    then show ?thesis using top by simp
  next
    case False
    then have "l < L - 1" using that by simp
    then show ?thesis using rec by blast
  qed
  have r3: "length (nb' ! l) = length (weights net ! l)" if "l < L" for l
  proof (cases "l = L - 1")
    case True
    then show ?thesis using top ldelta by simp
  next
    case False
    then have "l < L - 1" using that by simp
    then show ?thesis using rec by blast
  qed
  have run': "backprop net x y = Inr (nw', nb')" using bp run by (simp only:)
  have "backprop net x y = Inr (nw', nb') \<and>
     net_cost_derivative net (last A) y = Inr c \<and>
     length nb' = L \<and> length nw' = L \<and>
     nb' ! (L - 1) = hadamard c (activate_derivative net (S ! (L - 1))) \<and>
     (\<forall>l. Suc l < L \<longrightarrow>
        nb' ! l = hadamard (mat_vec (transpose_mat (weights net ! Suc l)) (nb' ! Suc l))
                        (activate_derivative net (S ! l))) \<and>
     (\<forall>l<L. nw' ! l = outer (nb' ! l) (A ! l)) \<and>
     (\<forall>l<L. length (nb' ! l) = length (weights net ! l))"
    using run' c len' top(1) r1 r2 r3 by (simp add: delta_def)
  then show ?thesis
    unfolding L_def A_def S_def by blast
qed


text \<open>
  C1. For a well-formed network, an example of the input layer's length and a valid
  label, \<open>backprop\<close> returns one bias gradient and one weight gradient for every
  transition. The bias gradient of the last transition is the cost derivative at the
  final activation times, entry by entry, the activation derivative of the final
  summatory; the bias gradient of every earlier transition is the transposed weight
  matrix of the next transition applied to the next bias gradient, times the activation
  derivative of the transition's own summatory; and every weight gradient is the outer
  product of the transition's bias gradient with the activation entering the transition.
\<close>

theorem backprop_recurrence:
  assumes "well_formed net" and "length x = input_size net" and "valid_label net x y"
  shows "\<exists>nabla_w nabla_b c.
     backprop net x y = Inr (nabla_w, nabla_b) \<and>
     net_cost_derivative net (last (activation_trace net x)) y = Inr c \<and>
     length nabla_b = length (weights net) \<and> length nabla_w = length (weights net) \<and>
     nabla_b ! (length (weights net) - 1) =
       hadamard c (activate_derivative net (summatory_trace net x ! (length (weights net) - 1))) \<and>
     (\<forall>l. Suc l < length (weights net) \<longrightarrow>
        nabla_b ! l = hadamard (mat_vec (transpose_mat (weights net ! Suc l)) (nabla_b ! Suc l))
                        (activate_derivative net (summatory_trace net x ! l))) \<and>
     (\<forall>l<length (weights net). nabla_w ! l = outer (nabla_b ! l) (activation_trace net x ! l))"
  using backprop_result [OF assms] by blast

theorem backprop_recurrence_witness:
  "let net = \<lparr>num_layers = 3, structure = [2, 2, 1],
               activate_function = (\<lambda>v. v), activate_derivative = map (\<lambda>s. 1),
               net_cost_derivative = cost_derivative,
               weights = [[[1, 0], [0, 1]], [[2, 3]]], biases = [[0, 0], [0]]\<rparr>
   in well_formed net \<and> length [1, 1::real] = input_size net \<and> valid_label net [1, 1] 0 \<and>
      backprop net [1, 1] 0 = Inr ([[[8, 8], [12, 12]], [[4, 4]]], [[8, 12], [4]]) \<and>
      [8, 12] = hadamard (mat_vec (transpose_mat (weights net ! 1)) [4])
                  (activate_derivative net (summatory_trace net [1, 1] ! 0)) \<and>
      [[8, 8], [12, 12]] = outer [8, 12] (activation_trace net [1, 1] ! 0)"
proof -
  define net where "net = \<lparr>num_layers = 3, structure = [2, 2, 1],
               activate_function = (\<lambda>v. v), activate_derivative = map (\<lambda>s. 1),
               net_cost_derivative = cost_derivative,
               weights = [[[1, 0], [0, 1]], [[2, 3]]], biases = [[0, 0], [0::real]]\<rparr>"
  have wf: "well_formed net"
    by (simp add: net_def well_formed_def input_size_def)
  have lx: "length [1, 1::real] = input_size net"
    by (simp add: net_def input_size_def)
  have vl: "valid_label net [1, 1] 0"
    by (simp add: net_def valid_label_def activation_trace_def affine_def mat_vec_def vdot_def
        cost_derivative_def py_set_def py_index_def zeros_like_def py_int_simps)
  have bp: "backprop net [1, 1] 0 = Inr ([[[8, 8], [12, 12]], [[4, 4]]], [[8, 12], [4]])"
    by (simp add: net_def backprop_def dot_def vdot_def vec_op_def py_get_def py_set_def
        py_index_def cost_derivative_def zeros_like_def zeros_like_mat_def py_int_simps
        outer_def transpose_mat_def upt_rec)
  obtain nabla_w nabla_b where
    r: "backprop net [1, 1] 0 = Inr (nabla_w, nabla_b)"
    and b: "\<forall>l. Suc l < length (weights net) \<longrightarrow>
        nabla_b ! l = hadamard (mat_vec (transpose_mat (weights net ! Suc l)) (nabla_b ! Suc l))
                        (activate_derivative net (summatory_trace net [1, 1] ! l))"
    and w: "\<forall>l<length (weights net).
        nabla_w ! l = outer (nabla_b ! l) (activation_trace net [1, 1] ! l)"
    using backprop_recurrence [OF wf lx vl] by blast
  have v: "nabla_w = [[[8, 8], [12, 12]], [[4, 4]]]" "nabla_b = [[8, 12], [4]]"
    using r bp by simp_all
  have "[8, 12] = hadamard (mat_vec (transpose_mat (weights net ! 1)) [4])
                  (activate_derivative net (summatory_trace net [1, 1] ! 0))"
    using b [rule_format, of 0] v by (simp add: net_def)
  moreover have "[[8, 8], [12, 12]] = outer [8, 12] (activation_trace net [1, 1] ! 0)"
    using w [rule_format, of 0] v by (simp add: net_def)
  ultimately show ?thesis
    using wf lx vl bp unfolding net_def Let_def by blast
qed

section \<open>The gradient-descent step\<close>

text \<open>Lists of arrays of agreeing shapes: elementwise operations on them succeed,
  keep the shapes, and act entry by entry.\<close>

lemma collect_map:
  "\<forall>x\<in>set xs. g x = Inr (h x) \<Longrightarrow> collect (map g xs) = Inr (map h xs)"
  by (induction xs) auto

lemma zip_same_shape:
  assumes "map F xs = map F ys" "(a, b) \<in> set (zip xs ys)"
  shows "F a = F b"
proof -
  obtain n where n: "xs ! n = a" "ys ! n = b" "n < length xs" "n < length ys"
    using assms(2) by (auto simp: in_set_zip)
  have "map F xs ! n = map F ys ! n" using assms(1) by simp
  then show ?thesis using n by simp
qed

lemma same_shape_nth:
  assumes "map F xs = map G ys" "l < length xs"
  shows "F (xs ! l) = G (ys ! l)" "length ys = length xs"
proof -
  show len: "length ys = length xs" using assms(1) by (metis length_map)
  have "map F xs ! l = map G ys ! l" using assms(1) by simp
  then show "F (xs ! l) = G (ys ! l)" using assms(2) len by simp
qed

lemma collect_vec_op:
  assumes "map length xs = map length ys"
  shows "collect (map2 (vec_op f) xs ys) = Inr (map2 (map2 f) xs ys)"
proof (rule collect_map)
  show "\<forall>p\<in>set (zip xs ys). (case p of (a, b) \<Rightarrow> vec_op f a b) = Inr (case p of (a, b) \<Rightarrow> map2 f a b)"
    using zip_same_shape [OF assms] by (auto simp: vec_op_ok)
qed

lemma collect_mat_op:
  assumes "map (map length) xs = map (map length) ys"
  shows "collect (map2 (mat_op f) xs ys) = Inr (map2 (map2 (map2 f)) xs ys)"
proof (rule collect_map)
  show "\<forall>p\<in>set (zip xs ys). (case p of (a, b) \<Rightarrow> mat_op f a b) = Inr (case p of (a, b) \<Rightarrow> map2 (map2 f) a b)"
    using zip_same_shape [OF assms] by (auto simp: mat_op_def)
qed

lemma shape_map2_vec:
  "map length xs = map length ys \<Longrightarrow> map length (map2 (map2 f) xs ys) = map length xs"
proof (induction xs arbitrary: ys)
  case Nil
  then show ?case by simp
next
  case (Cons x xs)
  then show ?case by (cases ys) auto
qed

lemma shape_map2_mat:
  "map (map length) xs = map (map length) ys \<Longrightarrow>
   map (map length) (map2 (map2 (map2 f)) xs ys) = map (map length) xs"
proof (induction xs arbitrary: ys)
  case Nil
  then show ?case by simp
next
  case (Cons x xs)
  then obtain y ys' where ys: "ys = y # ys'" by (cases ys) auto
  have hd: "map length (map2 (map2 f) x y) = map length x"
    using Cons.prems ys by (intro shape_map2_vec) simp
  have "map (map length) (map2 (map2 (map2 f)) xs ys') = map (map length) xs"
    using Cons.prems ys by (intro Cons.IH) simp
  then show ?case using hd ys by simp
qed

lemma nth_map2_vec:
  assumes "map length xs = map length ys" "l < length xs" "i < length (xs ! l)"
  shows "map2 (map2 f) xs ys ! l ! i = f (xs ! l ! i) (ys ! l ! i)"
proof -
  have "length (xs ! l) = length (ys ! l)" "length ys = length xs"
    using same_shape_nth [OF assms(1,2)] by simp_all
  then show ?thesis using assms(2,3) by simp
qed

lemma nth_map2_mat:
  assumes "map (map length) xs = map (map length) ys" "l < length xs" "i < length (xs ! l)"
    "j < length (xs ! l ! i)"
  shows "map2 (map2 (map2 f)) xs ys ! l ! i ! j = f (xs ! l ! i ! j) (ys ! l ! i ! j)"
proof -
  have s: "map length (xs ! l) = map length (ys ! l)" "length ys = length xs"
    using same_shape_nth [OF assms(1,2)] by simp_all
  have "map2 (map2 (map2 f)) xs ys ! l = map2 (map2 f) (xs ! l) (ys ! l)"
    using s(2) assms(2) by simp
  then show ?thesis using nth_map2_vec [OF s(1) assms(3,4)] by simp
qed

lemma foldl_add_vecs:
  assumes "\<forall>g\<in>set gs. map length g = map length a"
  shows "map length (foldl (\<lambda>acc g. map2 (map2 (+)) acc g) a gs) = map length a \<and>
     (\<forall>l i. l < length a \<and> i < length (a ! l) \<longrightarrow>
        foldl (\<lambda>acc g. map2 (map2 (+)) acc g) a gs ! l ! i = a ! l ! i + (\<Sum>g\<leftarrow>gs. g ! l ! i))"
  using assms
proof (induction gs arbitrary: a)
  case Nil
  then show ?case by simp
next
  case (Cons g gs)
  define a1 where "a1 = map2 (map2 (+)) a g"
  have ag: "map length a = map length g" using Cons.prems by simp
  have sh: "map length a1 = map length a"
    unfolding a1_def using ag by (rule shape_map2_vec)
  have "\<forall>g\<in>set gs. map length g = map length a1" using Cons.prems sh by simp
  from Cons.IH [OF this]
  have ih1: "map length (foldl (\<lambda>acc g. map2 (map2 (+)) acc g) a1 gs) = map length a1"
    and ih2: "\<And>l i. l < length a1 \<Longrightarrow> i < length (a1 ! l) \<Longrightarrow>
        foldl (\<lambda>acc g. map2 (map2 (+)) acc g) a1 gs ! l ! i = a1 ! l ! i + (\<Sum>g\<leftarrow>gs. g ! l ! i)"
    by blast+
  have entry: "foldl (\<lambda>acc g. map2 (map2 (+)) acc g) a (g # gs) ! l ! i =
      a ! l ! i + (\<Sum>g\<leftarrow>g # gs. g ! l ! i)" if "l < length a" "i < length (a ! l)" for l i
  proof -
    have l1: "l < length a1" "length (a1 ! l) = length (a ! l)"
      using same_shape_nth [OF sh [symmetric] that(1)] that(1) by simp_all
    have "a1 ! l ! i = a ! l ! i + g ! l ! i"
      unfolding a1_def using ag that by (rule nth_map2_vec)
    then show ?thesis using ih2 [of l i] l1 that by (simp add: a1_def add.assoc)
  qed
  show ?case using ih1 sh entry by (simp add: a1_def)
qed

lemma foldl_add_mats:
  assumes "\<forall>g\<in>set gs. map (map length) g = map (map length) a"
  shows "map (map length) (foldl (\<lambda>acc g. map2 (map2 (map2 (+))) acc g) a gs) = map (map length) a \<and>
     (\<forall>l i j. l < length a \<and> i < length (a ! l) \<and> j < length (a ! l ! i) \<longrightarrow>
        foldl (\<lambda>acc g. map2 (map2 (map2 (+))) acc g) a gs ! l ! i ! j =
          a ! l ! i ! j + (\<Sum>g\<leftarrow>gs. g ! l ! i ! j))"
  using assms
proof (induction gs arbitrary: a)
  case Nil
  then show ?case by simp
next
  case (Cons g gs)
  define a1 where "a1 = map2 (map2 (map2 (+))) a g"
  have ag: "map (map length) a = map (map length) g" using Cons.prems by simp
  have sh: "map (map length) a1 = map (map length) a"
    unfolding a1_def using ag by (rule shape_map2_mat)
  have "\<forall>g\<in>set gs. map (map length) g = map (map length) a1" using Cons.prems sh by simp
  from Cons.IH [OF this]
  have ih1: "map (map length) (foldl (\<lambda>acc g. map2 (map2 (map2 (+))) acc g) a1 gs) =
      map (map length) a1"
    and ih2: "\<And>l i j. l < length a1 \<Longrightarrow> i < length (a1 ! l) \<Longrightarrow> j < length (a1 ! l ! i) \<Longrightarrow>
        foldl (\<lambda>acc g. map2 (map2 (map2 (+))) acc g) a1 gs ! l ! i ! j =
          a1 ! l ! i ! j + (\<Sum>g\<leftarrow>gs. g ! l ! i ! j)"
    by blast+
  have entry: "foldl (\<lambda>acc g. map2 (map2 (map2 (+))) acc g) a (g # gs) ! l ! i ! j =
      a ! l ! i ! j + (\<Sum>g\<leftarrow>g # gs. g ! l ! i ! j)"
    if "l < length a" "i < length (a ! l)" "j < length (a ! l ! i)" for l i j
  proof -
    have l1: "l < length a1" "map length (a1 ! l) = map length (a ! l)"
      using same_shape_nth [OF sh [symmetric] that(1)] that(1) by simp_all
    have l2: "i < length (a1 ! l)" "length (a1 ! l ! i) = length (a ! l ! i)"
      using same_shape_nth [OF l1(2) [symmetric] that(2)] that(2) by simp_all
    have "a1 ! l ! i ! j = a ! l ! i ! j + g ! l ! i ! j"
      unfolding a1_def using ag that by (rule nth_map2_mat)
    then show ?thesis using ih2 [of l i j] l1 l2 that by (simp add: a1_def add.assoc)
  qed
  show ?case using ih1 sh entry by (simp add: a1_def)
qed


lemma rows_shape: "list_all (\<lambda>row. length row = n) w \<Longrightarrow> map length w = replicate (length w) n"
  by (induction w) auto

lemma outer_shape: "map length (outer a b) = replicate (length a) (length b)"
  by (induction a) (simp_all add: outer_def)

lemma gradient_shapes:
  assumes wf: "well_formed net" and vr: "valid_row net r"
  shows "backprop net (butlast r) (last r) = Inr (weight_gradient net r, bias_gradient net r)"
    and "map length (bias_gradient net r) = map length (biases net)"
    and "map (map length) (weight_gradient net r) = map (map length) (weights net)"
proof -
  define x where "x = butlast r"
  define y where "y = last r"
  define L where "L = length (weights net)"
  define A where "A = activation_trace net x"
  have lx: "length x = input_size net" and vl: "valid_label net x y"
    using vr by (simp_all add: valid_row_def x_def y_def)
  obtain nw nb where bp: "backprop net x y = Inr (nw, nb)"
    and len: "length nb = L" "length nw = L"
    and w: "\<forall>l<L. nw ! l = outer (nb ! l) (A ! l)"
    and b: "\<forall>l<L. length (nb ! l) = length (weights net ! l)"
    using backprop_result [OF wf lx vl] unfolding L_def A_def by blast
  have g: "weight_gradient net r = nw" "bias_gradient net r = nb"
    using bp by (simp_all add: weight_gradient_def bias_gradient_def x_def y_def)
  show "backprop net (butlast r) (last r) = Inr (weight_gradient net r, bias_gradient net r)"
    using bp g by (simp add: x_def y_def)
  have sh: "shaped (input_size net) (weights net) (biases net)"
    and fl: "\<forall>v. length (activate_function net v) = length v"
    using wf by (simp_all add: well_formed_def)
  have lb: "length (biases net) = L"
    using well_formed_layers(3) [OF wf] by (simp add: L_def)
  have ts: "list_all (\<lambda>row. length row = length (A ! l)) (weights net ! l) \<and>
            length (biases net ! l) = length (weights net ! l)" if "l < L" for l
    using trace_shapes [OF sh lx fl, of l] that by (simp add: L_def A_def activation_trace_def)
  have "map length nb = map length (biases net)"
  proof (rule nth_equalityI)
    show "length (map length nb) = length (map length (biases net))" using len lb by simp
  next
    fix l assume "l < length (map length nb)"
    then have "l < L" using len by simp
    then show "map length nb ! l = map length (biases net) ! l"
      using b ts len lb by simp
  qed
  then show "map length (bias_gradient net r) = map length (biases net)" using g by simp
  have "map (map length) nw = map (map length) (weights net)"
  proof (rule nth_equalityI)
    show "length (map (map length) nw) = length (map (map length) (weights net))"
      using len by (simp add: L_def)
  next
    fix l assume "l < length (map (map length) nw)"
    then have l: "l < L" using len by simp
    have "map length (nw ! l) = replicate (length (weights net ! l)) (length (A ! l))"
      using w b l by (simp add: outer_shape)
    moreover have "map length (weights net ! l) =
        replicate (length (weights net ! l)) (length (A ! l))"
      using ts [OF l] by (simp add: rows_shape)
    ultimately show "map (map length) nw ! l = map (map length) (weights net) ! l"
      using l len by (simp add: L_def)
  qed
  then show "map (map length) (weight_gradient net r) = map (map length) (weights net)"
    using g by simp
qed

lemma accumulate_value:
  assumes wf: "well_formed net" and rows: "\<forall>r\<in>set batch. valid_row net r"
    and nb: "map length nb0 = map length (biases net)"
    and nw: "map (map length) nw0 = map (map length) (weights net)"
  shows "accumulate net (map (\<lambda>r. (butlast r, last r)) batch) nb0 nw0 =
     Inr (foldl (\<lambda>acc g. map2 (map2 (+)) acc g) nb0 (map (bias_gradient net) batch),
          foldl (\<lambda>acc g. map2 (map2 (map2 (+))) acc g) nw0 (map (weight_gradient net) batch))"
  using rows nb nw
proof (induction batch arbitrary: nb0 nw0)
  case Nil
  then show ?case by simp
next
  case (Cons r batch)
  have vr: "valid_row net r" using Cons.prems(1) by simp
  note g = gradient_shapes [OF wf vr]
  have c1: "collect (map2 (vec_op (+)) nb0 (bias_gradient net r)) =
      Inr (map2 (map2 (+)) nb0 (bias_gradient net r))"
    using Cons.prems(2) g(2) by (intro collect_vec_op) simp
  have c2: "collect (map2 (mat_op (+)) nw0 (weight_gradient net r)) =
      Inr (map2 (map2 (map2 (+))) nw0 (weight_gradient net r))"
    using Cons.prems(3) g(3) by (intro collect_mat_op) simp
  have s1: "map length (map2 (map2 (+)) nb0 (bias_gradient net r)) = map length (biases net)"
    using shape_map2_vec [of nb0 "bias_gradient net r" "(+)"] Cons.prems(2) g(2) by simp
  have s2: "map (map length) (map2 (map2 (map2 (+))) nw0 (weight_gradient net r)) =
      map (map length) (weights net)"
    using shape_map2_mat [of nw0 "weight_gradient net r" "(+)"] Cons.prems(3) g(3) by simp
  have "accumulate net (map (\<lambda>r. (butlast r, last r)) (r # batch)) nb0 nw0 =
      accumulate net (map (\<lambda>r. (butlast r, last r)) batch)
        (map2 (map2 (+)) nb0 (bias_gradient net r))
        (map2 (map2 (map2 (+))) nw0 (weight_gradient net r))"
    by (simp only: list.map accumulate.simps g(1) sum.case prod.case c1 c2)
  also have "\<dots> = Inr (foldl (\<lambda>acc g. map2 (map2 (+)) acc g)
          (map2 (map2 (+)) nb0 (bias_gradient net r)) (map (bias_gradient net) batch),
        foldl (\<lambda>acc g. map2 (map2 (map2 (+))) acc g)
          (map2 (map2 (map2 (+))) nw0 (weight_gradient net r)) (map (weight_gradient net) batch))"
    using Cons.prems(1) s1 s2 by (intro Cons.IH) simp_all
  finally show ?case by simp
qed


lemma map2_scale_vec: "map2 (-) b (scale_vec c g) = map2 (\<lambda>a d. a - c * d) b g"
proof (induction b arbitrary: g)
  case Nil
  then show ?case by simp
next
  case (Cons a b)
  then show ?case by (cases g) (simp_all add: scale_vec_def)
qed

lemma map2_scale_mat: "map2 (map2 (-)) w (scale_mat c g) = map2 (map2 (\<lambda>a d. a - c * d)) w g"
proof (induction w arbitrary: g)
  case Nil
  then show ?case by simp
next
  case (Cons a w)
  show ?case
  proof (cases g)
    case Nil
    then show ?thesis by (simp add: scale_mat_def)
  next
    case (Cons d g')
    have "map2 (map2 (-)) w (scale_mat c g') = map2 (map2 (\<lambda>a d. a - c * d)) w g'"
      by (rule Cons.IH)
    then show ?thesis using Cons map2_scale_vec [of a c d] by (simp add: scale_mat_def)
  qed
qed

lemma update_mini_batch_value:
  assumes wf: "well_formed net" and ne: "mini_batch \<noteq> []"
    and rows: "\<forall>r\<in>set mini_batch. valid_row net r"
  shows "update_mini_batch net mini_batch learning_rate =
     Inr (net\<lparr>weights :=
            map2 (map2 (map2 (\<lambda>a d. a - learning_rate / real (length mini_batch) * d)))
              (weights net)
              (foldl (\<lambda>acc g. map2 (map2 (map2 (+))) acc g) (map zeros_like_mat (weights net))
                 (map (weight_gradient net) mini_batch)),
          biases :=
            map2 (map2 (\<lambda>a d. a - learning_rate / real (length mini_batch) * d))
              (biases net)
              (foldl (\<lambda>acc g. map2 (map2 (+)) acc g) (map zeros_like (biases net))
                 (map (bias_gradient net) mini_batch))\<rparr>)"
proof -
  define rate where "rate = learning_rate / real (length mini_batch)"
  define NB where "NB = foldl (\<lambda>acc g. map2 (map2 (+)) acc g) (map zeros_like (biases net))
                 (map (bias_gradient net) mini_batch)"
  define NW where "NW = foldl (\<lambda>acc g. map2 (map2 (map2 (+))) acc g)
                 (map zeros_like_mat (weights net)) (map (weight_gradient net) mini_batch)"
  have sc: "split_columns mini_batch = Inr (map (\<lambda>r. (butlast r, last r)) mini_batch)"
    using rows by (auto simp: split_columns_def list_ex_iff valid_row_def)
  have z1: "map length (map zeros_like (biases net)) = map length (biases net)"
    by (simp add: zeros_like_def comp_def)
  have z2: "map (map length) (map zeros_like_mat (weights net)) = map (map length) (weights net)"
    by (simp add: zeros_like_mat_def zeros_like_def comp_def)
  have acc: "accumulate net (map (\<lambda>r. (butlast r, last r)) mini_batch)
      (map zeros_like (biases net)) (map zeros_like_mat (weights net)) = Inr (NB, NW)"
    unfolding NB_def NW_def using wf rows z1 z2 by (rule accumulate_value)
  have td: "truediv learning_rate (length mini_batch) = Inr rate"
    using ne by (simp add: truediv_def rate_def)
  have "\<forall>g\<in>set (map (bias_gradient net) mini_batch).
      map length g = map length (map zeros_like (biases net))"
    using gradient_shapes(2) [OF wf] rows z1 by simp
  then have shB: "map length NB = map length (biases net)"
    unfolding NB_def using foldl_add_vecs z1 by metis
  have "\<forall>g\<in>set (map (weight_gradient net) mini_batch).
      map (map length) g = map (map length) (map zeros_like_mat (weights net))"
    using gradient_shapes(3) [OF wf] rows z2 by simp
  then have shW: "map (map length) NW = map (map length) (weights net)"
    unfolding NW_def using foldl_add_mats z2 by metis
  have cw: "collect (map2 (\<lambda>w nws. mat_op (-) w (scale_mat rate nws)) (weights net) NW) =
      Inr (map2 (map2 (map2 (\<lambda>a d. a - rate * d))) (weights net) NW)"
  proof (rule collect_map)
    show "\<forall>p\<in>set (zip (weights net) NW).
        (case p of (w, nws) \<Rightarrow> mat_op (-) w (scale_mat rate nws)) =
        Inr (case p of (w, g) \<Rightarrow> map2 (map2 (\<lambda>a d. a - rate * d)) w g)"
    proof
      fix p assume p: "p \<in> set (zip (weights net) NW)"
      obtain w g where wg: "p = (w, g)" by (cases p)
      have "map length w = map length g"
        using zip_same_shape [OF shW [symmetric]] p wg by simp
      then have "map length w = map length (scale_mat rate g)"
        by (simp add: scale_mat_def scale_vec_def comp_def)
      then show "(case p of (w, nws) \<Rightarrow> mat_op (-) w (scale_mat rate nws)) =
          Inr (case p of (w, g) \<Rightarrow> map2 (map2 (\<lambda>a d. a - rate * d)) w g)"
        using wg by (simp add: mat_op_def map2_scale_mat)
    qed
  qed
  have cb: "collect (map2 (\<lambda>b nbs. vec_op (-) b (scale_vec rate nbs)) (biases net) NB) =
      Inr (map2 (map2 (\<lambda>a d. a - rate * d)) (biases net) NB)"
  proof (rule collect_map)
    show "\<forall>p\<in>set (zip (biases net) NB).
        (case p of (b, nbs) \<Rightarrow> vec_op (-) b (scale_vec rate nbs)) =
        Inr (case p of (b, g) \<Rightarrow> map2 (\<lambda>a d. a - rate * d) b g)"
    proof
      fix p assume p: "p \<in> set (zip (biases net) NB)"
      obtain b g where bg: "p = (b, g)" by (cases p)
      have "length b = length g"
        using zip_same_shape [OF shB [symmetric]] p bg by simp
      then have "length b = length (scale_vec rate g)"
        by (simp add: scale_vec_def)
      then show "(case p of (b, nbs) \<Rightarrow> vec_op (-) b (scale_vec rate nbs)) =
          Inr (case p of (b, g) \<Rightarrow> map2 (\<lambda>a d. a - rate * d) b g)"
        using bg by (simp add: vec_op_def map2_scale_vec)
    qed
  qed
  show ?thesis
    unfolding update_mini_batch_def Let_def rate_def [symmetric] NB_def [symmetric]
      NW_def [symmetric]
    by (simp only: sc acc td cw cb sum.case prod.case)
qed

lemma keep_vec: "length xs = length ys \<Longrightarrow> map2 (\<lambda>a d. a - (0::real) * d) xs ys = xs"
  by (induction xs ys rule: list_induct2) simp_all

lemma keep_mat:
  "map length xs = map length ys \<Longrightarrow> map2 (map2 (\<lambda>a d. a - (0::real) * d)) xs ys = xs"
proof (induction xs arbitrary: ys)
  case Nil
  then show ?case by simp
next
  case (Cons x xs)
  then obtain y ys' where ys: "ys = y # ys'" by (cases ys) auto
  have "map2 (\<lambda>a d. a - (0::real) * d) x y = x"
    using Cons.prems ys by (intro keep_vec) simp
  moreover have "map2 (map2 (\<lambda>a d. a - (0::real) * d)) xs ys' = xs"
    using Cons.prems ys by (intro Cons.IH) simp
  ultimately show ?case using ys by simp
qed

lemma keep_mats:
  "map (map length) xs = map (map length) ys \<Longrightarrow>
   map2 (map2 (map2 (\<lambda>a d. a - (0::real) * d))) xs ys = xs"
proof (induction xs arbitrary: ys)
  case Nil
  then show ?case by simp
next
  case (Cons x xs)
  then obtain y ys' where ys: "ys = y # ys'" by (cases ys) auto
  have "map2 (map2 (\<lambda>a d. a - (0::real) * d)) x y = x"
    using Cons.prems ys by (intro keep_mat) simp
  moreover have "map2 (map2 (map2 (\<lambda>a d. a - (0::real) * d))) xs ys' = xs"
    using Cons.prems ys by (intro Cons.IH) simp
  ultimately show ?case using ys by simp
qed

lemma summed_gradient_shapes:
  assumes wf: "well_formed net" and rows: "\<forall>r\<in>set mini_batch. valid_row net r"
  shows "map length (foldl (\<lambda>acc g. map2 (map2 (+)) acc g) (map zeros_like (biases net))
            (map (bias_gradient net) mini_batch)) = map length (biases net)"
    and "map (map length) (foldl (\<lambda>acc g. map2 (map2 (map2 (+))) acc g)
            (map zeros_like_mat (weights net)) (map (weight_gradient net) mini_batch)) =
         map (map length) (weights net)"
    and "\<And>l i. l < length (biases net) \<Longrightarrow> i < length (biases net ! l) \<Longrightarrow>
         foldl (\<lambda>acc g. map2 (map2 (+)) acc g) (map zeros_like (biases net))
            (map (bias_gradient net) mini_batch) ! l ! i =
         (\<Sum>r\<leftarrow>mini_batch. bias_gradient net r ! l ! i)"
    and "\<And>l i j. l < length (weights net) \<Longrightarrow> i < length (weights net ! l) \<Longrightarrow>
           j < length (weights net ! l ! i) \<Longrightarrow>
         foldl (\<lambda>acc g. map2 (map2 (map2 (+))) acc g) (map zeros_like_mat (weights net))
            (map (weight_gradient net) mini_batch) ! l ! i ! j =
         (\<Sum>r\<leftarrow>mini_batch. weight_gradient net r ! l ! i ! j)"
proof -
  have z1: "map length (map zeros_like (biases net)) = map length (biases net)"
    by (simp add: zeros_like_def comp_def)
  have z2: "map (map length) (map zeros_like_mat (weights net)) = map (map length) (weights net)"
    by (simp add: zeros_like_mat_def zeros_like_def comp_def)
  have gb: "\<forall>g\<in>set (map (bias_gradient net) mini_batch).
      map length g = map length (map zeros_like (biases net))"
    using gradient_shapes(2) [OF wf] rows z1 by simp
  have gw: "\<forall>g\<in>set (map (weight_gradient net) mini_batch).
      map (map length) g = map (map length) (map zeros_like_mat (weights net))"
    using gradient_shapes(3) [OF wf] rows z2 by simp
  note fb = foldl_add_vecs [OF gb]
  note fw = foldl_add_mats [OF gw]
  show "map length (foldl (\<lambda>acc g. map2 (map2 (+)) acc g) (map zeros_like (biases net))
            (map (bias_gradient net) mini_batch)) = map length (biases net)"
    using fb z1 by simp
  show "map (map length) (foldl (\<lambda>acc g. map2 (map2 (map2 (+))) acc g)
            (map zeros_like_mat (weights net)) (map (weight_gradient net) mini_batch)) =
         map (map length) (weights net)"
    using fw z2 by simp
  show "foldl (\<lambda>acc g. map2 (map2 (+)) acc g) (map zeros_like (biases net))
            (map (bias_gradient net) mini_batch) ! l ! i =
         (\<Sum>r\<leftarrow>mini_batch. bias_gradient net r ! l ! i)"
    if "l < length (biases net)" "i < length (biases net ! l)" for l i
  proof -
    have "l < length (map zeros_like (biases net))"
      "i < length (map zeros_like (biases net) ! l)"
      "map zeros_like (biases net) ! l ! i = 0"
      using that by (simp_all add: zeros_like_def)
    then show ?thesis
      using fb [THEN conjunct2, rule_format, of l i] by (simp add: comp_def)
  qed
  show "foldl (\<lambda>acc g. map2 (map2 (map2 (+))) acc g) (map zeros_like_mat (weights net))
            (map (weight_gradient net) mini_batch) ! l ! i ! j =
         (\<Sum>r\<leftarrow>mini_batch. weight_gradient net r ! l ! i ! j)"
    if "l < length (weights net)" "i < length (weights net ! l)"
      "j < length (weights net ! l ! i)" for l i j
  proof -
    have "l < length (map zeros_like_mat (weights net))"
      "i < length (map zeros_like_mat (weights net) ! l)"
      "j < length (map zeros_like_mat (weights net) ! l ! i)"
      "map zeros_like_mat (weights net) ! l ! i ! j = 0"
      using that by (simp_all add: zeros_like_mat_def zeros_like_def)
    then show ?thesis
      using fw [THEN conjunct2, rule_format, of l i j] by (simp add: comp_def)
  qed
qed

text \<open>
  C2. For a well-formed network and a non-empty mini-batch of rows that fit it,
  \<open>update_mini_batch\<close> returns the network with every weight and every bias replaced
  by its old value minus \<open>learning_rate / len(mini_batch)\<close> times the sum, over the rows
  of the batch, of the entry of the row's \<open>backprop\<close> gradient; the shapes of the
  parameters and the other fields of the network are as before.
\<close>

theorem update_mini_batch_step:
  assumes "well_formed net" and "mini_batch \<noteq> []" and "list_all (valid_row net) mini_batch"
  shows "\<exists>net'. update_mini_batch net mini_batch learning_rate = Inr net' \<and>
     net' = net\<lparr>weights := weights net', biases := biases net'\<rparr> \<and>
     map (map length) (weights net') = map (map length) (weights net) \<and>
     map length (biases net') = map length (biases net) \<and>
     (\<forall>l i j. l < length (weights net) \<and> i < length (weights net ! l) \<and>
          j < length (weights net ! l ! i) \<longrightarrow>
        weights net' ! l ! i ! j =
          weights net ! l ! i ! j -
          learning_rate / real (length mini_batch) *
            (\<Sum>r\<leftarrow>mini_batch. weight_gradient net r ! l ! i ! j)) \<and>
     (\<forall>l i. l < length (biases net) \<and> i < length (biases net ! l) \<longrightarrow>
        biases net' ! l ! i =
          biases net ! l ! i -
          learning_rate / real (length mini_batch) *
            (\<Sum>r\<leftarrow>mini_batch. bias_gradient net r ! l ! i))"
proof -
  define rate where "rate = learning_rate / real (length mini_batch)"
  define NB where "NB = foldl (\<lambda>acc g. map2 (map2 (+)) acc g) (map zeros_like (biases net))
                 (map (bias_gradient net) mini_batch)"
  define NW where "NW = foldl (\<lambda>acc g. map2 (map2 (map2 (+))) acc g)
                 (map zeros_like_mat (weights net)) (map (weight_gradient net) mini_batch)"
  define ws where "ws = map2 (map2 (map2 (\<lambda>a d. a - rate * d))) (weights net) NW"
  define bs where "bs = map2 (map2 (\<lambda>a d. a - rate * d)) (biases net) NB"
  have rows: "\<forall>r\<in>set mini_batch. valid_row net r"
    using assms(3) by (simp add: list_all_iff)
  have val: "update_mini_batch net mini_batch learning_rate =
      Inr (net\<lparr>weights := ws, biases := bs\<rparr>)"
    unfolding ws_def bs_def NB_def NW_def rate_def
    using assms(1,2) rows by (rule update_mini_batch_value)
  note sg = summed_gradient_shapes [OF assms(1) rows, folded NB_def NW_def]
  have shW: "map (map length) (weights net) = map (map length) NW" using sg(2) by simp
  have shB: "map length (biases net) = map length NB" using sg(1) by simp
  have s1: "map (map length) ws = map (map length) (weights net)"
    unfolding ws_def using shW by (rule shape_map2_mat)
  have s2: "map length bs = map length (biases net)"
    unfolding bs_def using shB by (rule shape_map2_vec)
  have w: "ws ! l ! i ! j = weights net ! l ! i ! j - rate * (\<Sum>r\<leftarrow>mini_batch. weight_gradient net r ! l ! i ! j)"
    if "l < length (weights net)" "i < length (weights net ! l)"
      "j < length (weights net ! l ! i)" for l i j
  proof -
    have "ws ! l ! i ! j = weights net ! l ! i ! j - rate * NW ! l ! i ! j"
      unfolding ws_def using shW that by (rule nth_map2_mat)
    then show ?thesis using sg(4) [OF that] by simp
  qed
  have b: "bs ! l ! i = biases net ! l ! i - rate * (\<Sum>r\<leftarrow>mini_batch. bias_gradient net r ! l ! i)"
    if "l < length (biases net)" "i < length (biases net ! l)" for l i
  proof -
    have "bs ! l ! i = biases net ! l ! i - rate * NB ! l ! i"
      unfolding bs_def using shB that by (rule nth_map2_vec)
    then show ?thesis using sg(3) [OF that] by simp
  qed
  show ?thesis
    unfolding rate_def [symmetric]
    using val s1 s2 w b by (intro exI [of _ "net\<lparr>weights := ws, biases := bs\<rparr>"]) simp
qed

theorem update_mini_batch_step_witness:
  "let net = \<lparr>num_layers = 3, structure = [2, 2, 1],
               activate_function = (\<lambda>v. v), activate_derivative = map (\<lambda>s. 1),
               net_cost_derivative = cost_derivative,
               weights = [[[1, 0], [0, 1]], [[2, 3]]], biases = [[0, 0], [0]]\<rparr>;
       mini_batch = [[1, 1, 0], [1, 1, 0]]
   in well_formed net \<and> mini_batch \<noteq> [] \<and> list_all (valid_row net) mini_batch \<and>
      update_mini_batch net mini_batch 1 =
        Inr (net\<lparr>weights := [[[- 7, - 8], [- 12, - 11]], [[- 2, - 1]]],
                 biases := [[- 8, - 12], [- 4]]\<rparr>) \<and>
      (- 7 :: real) = weights net ! 0 ! 0 ! 0 -
         1 / real (length mini_batch) * (\<Sum>r\<leftarrow>mini_batch. weight_gradient net r ! 0 ! 0 ! 0) \<and>
      (- 4 :: real) = biases net ! 1 ! 0 -
         1 / real (length mini_batch) * (\<Sum>r\<leftarrow>mini_batch. bias_gradient net r ! 1 ! 0)"
proof -
  define net where "net = \<lparr>num_layers = 3, structure = [2, 2, 1],
               activate_function = (\<lambda>v. v), activate_derivative = map (\<lambda>s. 1),
               net_cost_derivative = cost_derivative,
               weights = [[[1, 0], [0, 1]], [[2, 3]]], biases = [[0, 0], [0::real]]\<rparr>"
  define mini_batch where "mini_batch = [[1, 1, 0], [1, 1, 0::real]]"
  have wf: "well_formed net"
    by (simp add: net_def well_formed_def input_size_def)
  have ne: "mini_batch \<noteq> []" by (simp add: mini_batch_def)
  have vl: "valid_label net [1, 1] 0"
    by (simp add: net_def valid_label_def activation_trace_def affine_def mat_vec_def vdot_def
        cost_derivative_def py_set_def py_index_def zeros_like_def py_int_simps)
  have vr: "list_all (valid_row net) mini_batch"
    using vl by (simp add: mini_batch_def valid_row_def) (simp add: net_def input_size_def)
  have bp: "backprop net [1, 1] 0 = Inr ([[[8, 8], [12, 12]], [[4, 4]]], [[8, 12], [4]])"
    by (simp add: net_def backprop_def dot_def vdot_def vec_op_def py_get_def py_set_def
        py_index_def cost_derivative_def zeros_like_def zeros_like_mat_def py_int_simps
        outer_def transpose_mat_def upt_rec)
  have upd: "update_mini_batch net mini_batch 1 =
        Inr (net\<lparr>weights := [[[- 7, - 8], [- 12, - 11]], [[- 2, - 1]]],
                 biases := [[- 8, - 12], [- 4]]\<rparr>)"
    using bp unfolding net_def mini_batch_def
    by (simp add: update_mini_batch_def split_columns_def vec_op_def mat_op_def
        truediv_def scale_vec_def scale_mat_def zeros_like_def zeros_like_mat_def)
  obtain net' where
    r: "update_mini_batch net mini_batch 1 = Inr net'"
    and w: "\<forall>l i j. l < length (weights net) \<and> i < length (weights net ! l) \<and>
          j < length (weights net ! l ! i) \<longrightarrow>
        weights net' ! l ! i ! j =
          weights net ! l ! i ! j -
          1 / real (length mini_batch) *
            (\<Sum>r\<leftarrow>mini_batch. weight_gradient net r ! l ! i ! j)"
    and b: "\<forall>l i. l < length (biases net) \<and> i < length (biases net ! l) \<longrightarrow>
        biases net' ! l ! i =
          biases net ! l ! i -
          1 / real (length mini_batch) *
            (\<Sum>r\<leftarrow>mini_batch. bias_gradient net r ! l ! i)"
    using update_mini_batch_step [OF wf ne vr, of 1] by blast
  have v: "weights net' = [[[- 7, - 8], [- 12, - 11]], [[- 2, - 1]]]"
    "biases net' = [[- 8, - 12], [- 4]]"
    using r upd by auto
  have "(- 7 :: real) = weights net ! 0 ! 0 ! 0 -
         1 / real (length mini_batch) * (\<Sum>r\<leftarrow>mini_batch. weight_gradient net r ! 0 ! 0 ! 0)"
    using w [rule_format, of 0 0 0] v(1) by (simp add: net_def)
  moreover have "(- 4 :: real) = biases net ! 1 ! 0 -
         1 / real (length mini_batch) * (\<Sum>r\<leftarrow>mini_batch. bias_gradient net r ! 1 ! 0)"
    using b [rule_format, of 1 0] v(2) by (simp add: net_def)
  ultimately show ?thesis
    using wf ne vr upd unfolding net_def mini_batch_def Let_def by blast
qed

text \<open>
  C7. For a well-formed network and a non-empty mini-batch of rows that fit it,
  \<open>update_mini_batch\<close> with learning rate 0 returns the network it was given: every
  weight matrix and every bias vector keeps its value.
\<close>

theorem update_mini_batch_zero_rate:
  assumes "well_formed net" and "mini_batch \<noteq> []" and "list_all (valid_row net) mini_batch"
  shows "update_mini_batch net mini_batch 0 = Inr net"
proof -
  have rows: "\<forall>r\<in>set mini_batch. valid_row net r"
    using assms(3) by (simp add: list_all_iff)
  note sg = summed_gradient_shapes [OF assms(1) rows]
  have "update_mini_batch net mini_batch 0 =
     Inr (net\<lparr>weights :=
            map2 (map2 (map2 (\<lambda>a d. a - 0 / real (length mini_batch) * d)))
              (weights net)
              (foldl (\<lambda>acc g. map2 (map2 (map2 (+))) acc g) (map zeros_like_mat (weights net))
                 (map (weight_gradient net) mini_batch)),
          biases :=
            map2 (map2 (\<lambda>a d. a - 0 / real (length mini_batch) * d))
              (biases net)
              (foldl (\<lambda>acc g. map2 (map2 (+)) acc g) (map zeros_like (biases net))
                 (map (bias_gradient net) mini_batch))\<rparr>)"
    using assms(1,2) rows by (rule update_mini_batch_value)
  moreover have "map2 (map2 (map2 (\<lambda>a d. a - 0 / real (length mini_batch) * d)))
              (weights net)
              (foldl (\<lambda>acc g. map2 (map2 (map2 (+))) acc g) (map zeros_like_mat (weights net))
                 (map (weight_gradient net) mini_batch)) = weights net"
    using keep_mats [OF sg(2) [symmetric]] by simp
  moreover have "map2 (map2 (\<lambda>a d. a - 0 / real (length mini_batch) * d))
              (biases net)
              (foldl (\<lambda>acc g. map2 (map2 (+)) acc g) (map zeros_like (biases net))
                 (map (bias_gradient net) mini_batch)) = biases net"
    using keep_mat [OF sg(1) [symmetric]] by simp
  ultimately show ?thesis by simp
qed


theorem update_mini_batch_zero_rate_witness:
  "let net = \<lparr>num_layers = 2, structure = [1, 1],
               activate_function = map sigmoid, activate_derivative = map sigmoid_derivative,
               net_cost_derivative = cost_derivative,
               weights = [[[1]]], biases = [[0]]\<rparr>;
       mini_batch = [[0, 0]]
   in well_formed net \<and> mini_batch \<noteq> [] \<and> list_all (valid_row net) mini_batch \<and>
      update_mini_batch net mini_batch 0 = Inr net"
proof -
  define net where "net = \<lparr>num_layers = 2, structure = [1, 1],
               activate_function = map sigmoid, activate_derivative = map sigmoid_derivative,
               net_cost_derivative = cost_derivative,
               weights = [[[1]]], biases = [[0::real]]\<rparr>"
  define mini_batch where "mini_batch = [[0, 0::real]]"
  have wf: "well_formed net"
    by (simp add: net_def well_formed_def input_size_def)
  have ne: "mini_batch \<noteq> []" by (simp add: mini_batch_def)
  have vr: "list_all (valid_row net) mini_batch"
    by (simp add: mini_batch_def valid_row_def net_def input_size_def valid_label_def
        activation_trace_def affine_def mat_vec_def vdot_def cost_derivative_def py_set_def
        py_index_def zeros_like_def py_int_simps)
  show ?thesis
    using update_mini_batch_zero_rate [OF wf ne vr] wf ne vr
    unfolding net_def mini_batch_def Let_def by blast
qed

section \<open>The failures of training\<close>

text \<open>Which exception each operation of the module can raise: indexing raises
  IndexError, arithmetic on arrays of different shapes ValueError, and only a division
  by a length ZeroDivisionError.\<close>

lemma py_get_error: "py_get xs i = Inl e \<Longrightarrow> e = IndexError"
  by (auto simp: py_get_def py_index_def Let_def split: if_splits)

lemma py_set_error: "py_set xs i v = Inl e \<Longrightarrow> e = IndexError"
  by (auto simp: py_set_def py_index_def Let_def split: if_splits)

lemma dot_error: "dot w v = Inl e \<Longrightarrow> e = ValueError"
  by (auto simp: dot_def split: if_splits)

lemma vec_op_error: "vec_op f a b = Inl e \<Longrightarrow> e = ValueError"
  by (auto simp: vec_op_def split: if_splits)

lemma mat_op_error: "mat_op f a b = Inl e \<Longrightarrow> e = ValueError"
  by (auto simp: mat_op_def split: if_splits)

lemma split_columns_error: "split_columns rows = Inl e \<Longrightarrow> e = IndexError"
  by (auto simp: split_columns_def split: if_splits)

lemma collect_error: "collect xs = Inl e \<Longrightarrow> Inl e \<in> set xs"
  by (induction xs) (auto split: sum.splits)

lemma forward_trace_error: "forward_trace f wbs a am sm = Inl e \<Longrightarrow> e = ValueError"
  by (induction f wbs a am sm rule: forward_trace.induct)
    (auto split: sum.splits dest: dot_error vec_op_error)

lemma forward_loop_error: "forward_loop f wbs a = Inl e \<Longrightarrow> e = ValueError"
  by (induction f wbs a rule: forward_loop.induct)
    (auto split: sum.splits dest: dot_error vec_op_error)

lemma backward_loop_error:
  "backward_loop net A S layers delta nb nw \<noteq> Inl ZeroDivisionError"
proof (induction net A S layers delta nb nw rule: backward_loop.induct)
  case (1 net A S delta nb nw)
  then show ?case by simp
next
  case (2 net A S layer layers delta nb nw)
  show ?case
  proof
    assume f: "backward_loop net A S (layer # layers) delta nb nw = Inl ZeroDivisionError"
    show False
    proof (cases "py_get (weights net) (- layer + 1)")
      case (Inl e)
      then show False using f py_get_error [OF Inl] by simp
    next
      case w: (Inr w)
      show False
      proof (cases "dot (transpose_mat w) delta")
        case (Inl e)
        then show False using f w dot_error [OF Inl] by simp
      next
        case p: (Inr pulled)
        show False
        proof (cases "py_get S (- layer)")
          case (Inl e)
          then show False using f w p py_get_error [OF Inl] by simp
        next
          case s: (Inr s)
          show False
          proof (cases "vec_op (*) pulled (activate_derivative net s)")
            case (Inl e)
            then show False using f w p s vec_op_error [OF Inl] by simp
          next
            case d: (Inr delta')
            show False
            proof (cases "py_set nb (- layer) delta'")
              case (Inl e)
              then show False using f w p s d py_set_error [OF Inl] by simp
            next
              case b: (Inr nb')
              show False
              proof (cases "py_get A (- layer - 1)")
                case (Inl e)
                then show False using f w p s d b py_get_error [OF Inl] by simp
              next
                case a: (Inr a)
                show False
                proof (cases "py_set nw (- layer) (outer delta' a)")
                  case (Inl e)
                  then show False using f w p s d b a py_set_error [OF Inl] by simp
                next
                  case n: (Inr nw')
                  have "backward_loop net A S layers delta' nb' nw' \<noteq> Inl ZeroDivisionError"
                    using w p s d b a n by (rule "2.IH")
                  then show False using f w p s d b a n by simp
                qed
              qed
            qed
          qed
        qed
      qed
    qed
  qed
qed

lemma backprop_error:
  assumes "\<forall>a y. net_cost_derivative net a y \<noteq> Inl ZeroDivisionError"
  shows "backprop net x y \<noteq> Inl ZeroDivisionError"
proof
  assume f: "backprop net x y = Inl ZeroDivisionError"
  show False
  proof (cases "forward_trace (activate_function net) (zip (weights net) (biases net)) x [x] []")
    case (Inl e)
    then show False using f forward_trace_error [OF Inl] by (simp add: backprop_def)
  next
    case t: (Inr tr)
    obtain A S where tr: "tr = (A, S)" by (cases tr)
    show False
    proof (cases "py_get A (- 1)")
      case (Inl e)
      then show False using f t tr py_get_error [OF Inl] by (simp add: backprop_def)
    next
      case al: (Inr a_last)
      show False
      proof (cases "net_cost_derivative net a_last y")
        case (Inl e)
        then have "e \<noteq> ZeroDivisionError" using assms by metis
        then show False using f t tr al Inl by (simp add: backprop_def)
      next
        case c: (Inr c)
        show False
        proof (cases "py_get S (- 1)")
          case (Inl e)
          then show False using f t tr al c py_get_error [OF Inl] by (simp add: backprop_def)
        next
          case sl: (Inr s_last)
          show False
          proof (cases "vec_op (*) c (activate_derivative net s_last)")
            case (Inl e)
            then show False
              using f t tr al c sl vec_op_error [OF Inl] by (simp add: backprop_def)
          next
            case d: (Inr delta)
            show False
            proof (cases "py_set (map zeros_like (biases net)) (- 1) delta")
              case (Inl e)
              then show False
                using f t tr al c sl d py_set_error [OF Inl] by (simp add: backprop_def)
            next
              case b: (Inr nb')
              show False
              proof (cases "py_get A (- 2)")
                case (Inl e)
                then show False
                  using f t tr al c sl d b py_get_error [OF Inl] by (simp add: backprop_def)
              next
                case ap: (Inr a_prev)
                show False
                proof (cases "py_set (map zeros_like_mat (weights net)) (- 1) (outer delta a_prev)")
                  case (Inl e)
                  then show False
                    using f t tr al c sl d b ap py_set_error [OF Inl]
                    by (simp add: backprop_def)
                next
                  case n: (Inr nw')
                  show False
                    using f t tr al c sl d b ap n backward_loop_error
                    by (simp add: backprop_def)
                qed
              qed
            qed
          qed
        qed
      qed
    qed
  qed
qed

lemma collect_vec_op_error: "collect (map2 (vec_op f) xs ys) = Inl e \<Longrightarrow> e = ValueError"
  by (auto dest!: collect_error dest: vec_op_error [OF sym])

lemma collect_mat_op_error: "collect (map2 (mat_op f) xs ys) = Inl e \<Longrightarrow> e = ValueError"
  by (auto dest!: collect_error dest: mat_op_error [OF sym])

lemma accumulate_error:
  "\<forall>a y. net_cost_derivative net a y \<noteq> Inl ZeroDivisionError \<Longrightarrow>
   accumulate net examples nb nw \<noteq> Inl ZeroDivisionError"
proof (induction net examples nb nw rule: accumulate.induct)
  case (1 net nb nw)
  then show ?case by simp
next
  case (2 net x y rest nb nw)
  show ?case
  proof
    assume f: "accumulate net ((x, y) # rest) nb nw = Inl ZeroDivisionError"
    show False
    proof (cases "backprop net x y")
      case (Inl e)
      then show False using f backprop_error [OF "2.prems", of x y] by simp
    next
      case g: (Inr g)
      obtain gw gb where gg: "g = (gw, gb)" by (cases g)
      show False
      proof (cases "collect (map2 (vec_op (+)) nb gb)")
        case (Inl e)
        then show False using f g gg collect_vec_op_error [OF Inl] by simp
      next
        case b: (Inr nb')
        show False
        proof (cases "collect (map2 (mat_op (+)) nw gw)")
          case (Inl e)
          then show False using f g gg b collect_mat_op_error [OF Inl] by simp
        next
          case w: (Inr nw')
          have "accumulate net rest nb' nw' \<noteq> Inl ZeroDivisionError"
            using g gg b w "2.prems" by (intro "2.IH") simp_all
          then show False using f g gg b w by simp
        qed
      qed
    qed
  qed
qed

lemma update_mini_batch_error:
  assumes "mini_batch \<noteq> []"
    and "\<forall>a y. net_cost_derivative net a y \<noteq> Inl ZeroDivisionError"
  shows "update_mini_batch net mini_batch learning_rate \<noteq> Inl ZeroDivisionError"
proof
  assume f: "update_mini_batch net mini_batch learning_rate = Inl ZeroDivisionError"
  have td: "truediv learning_rate (length mini_batch) =
      Inr (learning_rate / real (length mini_batch))"
    using assms(1) by (simp add: truediv_def)
  show False
  proof (cases "split_columns mini_batch")
    case (Inl e)
    then show False using f split_columns_error [OF Inl] by (simp add: update_mini_batch_def)
  next
    case s: (Inr examples)
    show False
    proof (cases "accumulate net examples (map zeros_like (biases net))
                    (map zeros_like_mat (weights net))")
      case (Inl e)
      then show False
        using f s accumulate_error [OF assms(2), of examples "map zeros_like (biases net)"
            "map zeros_like_mat (weights net)"]
        by (simp add: update_mini_batch_def)
    next
      case a: (Inr acc)
      obtain nb nw where acc: "acc = (nb, nw)" by (cases acc)
      show False
      proof (cases "collect (map2 (\<lambda>w nws. mat_op (-) w
                 (scale_mat (learning_rate / real (length mini_batch)) nws)) (weights net) nw)")
        case (Inl e)
        then have "e = ValueError"
          by (auto dest!: collect_error dest: mat_op_error [OF sym])
        then show False using f s a acc td Inl by (simp add: update_mini_batch_def)
      next
        case w: (Inr ws)
        show False
        proof (cases "collect (map2 (\<lambda>b nbs. vec_op (-) b
                   (scale_vec (learning_rate / real (length mini_batch)) nbs)) (biases net) nb)")
          case (Inl e)
          then have "e = ValueError"
            by (auto dest!: collect_error dest: vec_op_error [OF sym])
          then show False using f s a acc td w Inl by (simp add: update_mini_batch_def)
        next
          case (Inr bs)
          then show False using f s a acc td w by (simp add: update_mini_batch_def)
        qed
      qed
    qed
  qed
qed

lemma update_mini_batch_cost:
  "update_mini_batch net mini_batch learning_rate = Inr net' \<Longrightarrow>
   net_cost_derivative net' = net_cost_derivative net"
  by (auto simp: update_mini_batch_def Let_def split: sum.splits prod.splits)

lemma run_batches_error:
  assumes "\<forall>b\<in>set batches. b \<noteq> []"
    and "\<forall>a y. net_cost_derivative net a y \<noteq> Inl ZeroDivisionError"
  shows "run_batches net batches learning_rate \<noteq> Inl ZeroDivisionError \<and>
     (\<forall>net'. run_batches net batches learning_rate = Inr net' \<longrightarrow>
        net_cost_derivative net' = net_cost_derivative net)"
  using assms
proof (induction batches arbitrary: net)
  case Nil
  then show ?case by simp
next
  case (Cons b batches)
  show ?case
  proof (cases "update_mini_batch net b learning_rate")
    case (Inl e)
    then have "e \<noteq> ZeroDivisionError"
      using update_mini_batch_error [of b net learning_rate] Cons.prems by auto
    then show ?thesis using Inl by simp
  next
    case (Inr net1)
    have c: "net_cost_derivative net1 = net_cost_derivative net"
      using Inr by (rule update_mini_batch_cost)
    have "run_batches net1 batches learning_rate \<noteq> Inl ZeroDivisionError \<and>
     (\<forall>net'. run_batches net1 batches learning_rate = Inr net' \<longrightarrow>
        net_cost_derivative net' = net_cost_derivative net1)"
      using Cons.prems c by (intro Cons.IH) simp_all
    then show ?thesis using Inr c by simp
  qed
qed

lemma evaluate_error:
  assumes "test_data \<noteq> []"
  shows "evaluate net test_data \<noteq> Inl ZeroDivisionError"
proof
  assume f: "evaluate net test_data = Inl ZeroDivisionError"
  have p: "predict net xy = Inl e \<Longrightarrow> e = ValueError" for xy e
    by (auto simp: predict_def forward_feed_def argmax_def
        split: sum.splits list.splits dest: forward_loop_error)
  show False
  proof (cases "split_columns test_data")
    case (Inl e)
    then show False using f split_columns_error [OF Inl] by (simp add: evaluate_def)
  next
    case s: (Inr examples)
    show False
    proof (cases "collect (map (predict net) examples)")
      case (Inl e)
      then have "e = ValueError" by (auto dest!: collect_error dest: p [OF sym])
      then show False using f s Inl by (simp add: evaluate_def)
    next
      case (Inr test_result)
      then show False using f s assms by (simp add: evaluate_def truediv_def)
    qed
  qed
qed

lemma total_cost_loop_error: "total_cost_loop net examples total_cost \<noteq> Inl ZeroDivisionError"
proof (induction net examples total_cost rule: total_cost_loop.induct)
  case (1 net total_cost)
  then show ?case by simp
next
  case (2 net x y rest total_cost)
  have c: "cost_function a y = Inl e \<Longrightarrow> e = IndexError" for a e
    by (auto simp: cost_function_def split: sum.splits dest: py_set_error)
  show ?case
  proof (cases "forward_feed net x")
    case (Inl e)
    then have "e = ValueError"
      by (auto simp: forward_feed_def dest: forward_loop_error)
    then show ?thesis using Inl by simp
  next
    case o: (Inr out)
    show ?thesis
    proof (cases "cost_function out y")
      case (Inl e)
      then show ?thesis using o c [OF Inl] by simp
    next
      case (Inr cst)
      then show ?thesis using o "2.IH" by simp
    qed
  qed
qed

lemma J_average_error:
  assumes "test_data \<noteq> []"
  shows "J_average net test_data \<noteq> Inl ZeroDivisionError"
  using assms
  by (auto simp: J_average_def truediv_def total_cost_loop_error split: sum.splits
      dest: split_columns_error)

lemma J_average_network: "J_average net t = Inr (r, net') \<Longrightarrow> net' = net"
  by (auto simp: J_average_def Let_def split: sum.splits)


lemma sgd_epochs_error:
  assumes size: "1 \<le> mini_batch_size"
    and perm: "\<forall>epoch d. mset (shuffle epoch d) = mset d"
    and test: "test_data \<noteq> Some []"
  shows "d \<noteq> [] \<Longrightarrow> \<forall>a y. net_cost_derivative net a y \<noteq> Inl ZeroDivisionError \<Longrightarrow>
     sgd_epochs shuffle net d mini_batch_size epochs learning_rate test_data (length d) \<noteq>
       Inl ZeroDivisionError"
proof (induction epochs arbitrary: net d)
  case Nil
  then show ?case by simp
next
  case (Cons epoch epochs)
  define d1 where "d1 = shuffle epoch d"
  have m: "mset d1 = mset d" using perm by (simp add: d1_def)
  have len: "length d1 = length d" using m by (metis size_mset)
  have ne1: "d1 \<noteq> []" using len Cons.prems(1) by auto
  obtain batches where bs: "mini_batches d1 mini_batch_size (length d) = Inr batches"
    and nonempty: "\<forall>b\<in>set batches. b \<noteq> []"
    using mini_batches_nonempty [OF size Cons.prems(1) m] by blast
  note rb = run_batches_error [OF nonempty Cons.prems(2), of learning_rate]
  show ?case
  proof (cases "run_batches net batches learning_rate")
    case (Inl x)
    then have "x \<noteq> ZeroDivisionError" using rb by auto
    then show ?thesis using bs Inl by (simp add: d1_def [symmetric])
  next
    case r: (Inr net1)
    have c1: "\<forall>a y. net_cost_derivative net1 a y \<noteq> Inl ZeroDivisionError"
      using rb r Cons.prems(2) by simp
    have "sgd_epochs shuffle net1 d1 mini_batch_size epochs learning_rate test_data (length d1)
        \<noteq> Inl ZeroDivisionError"
      using ne1 c1 by (rule Cons.IH)
    then have ih: "sgd_epochs shuffle net1 d1 mini_batch_size epochs learning_rate test_data
        (length d) \<noteq> Inl ZeroDivisionError"
      using len by simp
    show ?thesis
    proof (cases test_data)
      case None
      then show ?thesis using bs r ih by (simp add: d1_def [symmetric])
    next
      case (Some t)
      then have t: "t \<noteq> []" using test by auto
      show ?thesis
      proof (cases "evaluate net1 t")
        case (Inl x)
        then have "x \<noteq> ZeroDivisionError" using evaluate_error [OF t, of net1] by auto
        then show ?thesis using bs r Some Inl by (simp add: d1_def [symmetric])
      next
        case ev: (Inr v)
        obtain p net2 where v: "v = (p, net2)" by (cases v)
        have n2: "net2 = net1" using ev v evaluate_network by blast
        show ?thesis
        proof (cases "J_average net1 t")
          case (Inl x)
          then have "x \<noteq> ZeroDivisionError" using J_average_error [OF t, of net1] by auto
          then show ?thesis using bs r Some ev v n2 Inl by (simp add: d1_def [symmetric])
        next
          case ja: (Inr u)
          obtain j net3 where u: "u = (j, net3)" by (cases u)
          have n3: "net3 = net1" using ja u J_average_network by blast
          show ?thesis using bs r Some ev v n2 ja u n3 ih by (simp add: d1_def [symmetric])
        qed
      qed
    qed
  qed
qed

lemma sgd_error:
  assumes "1 \<le> mini_batch_size" and "data \<noteq> []"
    and "\<forall>epoch d. mset (shuffle epoch d) = mset d"
    and "\<forall>a y. net_cost_derivative net a y \<noteq> Inl ZeroDivisionError"
    and "test_data \<noteq> Some []"
  shows "sgd shuffle net data mini_batch_size max_epochs learning_rate test_data \<noteq>
     Inl ZeroDivisionError"
proof -
  note e = sgd_epochs_error [OF assms(1,3,5,2,4), of "[0..<nat max_epochs]" learning_rate]
  show ?thesis
  proof (cases "sgd_epochs shuffle net data mini_batch_size [0..<nat max_epochs] learning_rate
             test_data (length data)")
    case (Inl x)
    then have "x \<noteq> ZeroDivisionError" using e by auto
    then show ?thesis using Inl by (simp add: sgd_def)
  next
    case r: (Inr v)
    obtain net' data' where v: "v = (net', data')" by (cases v)
    show ?thesis
    proof (cases test_data)
      case None
      then show ?thesis using r v by (simp add: sgd_def)
    next
      case (Some t)
      then have t: "t \<noteq> []" using assms(5) by auto
      show ?thesis
      proof (cases "evaluate net' t")
        case (Inl x)
        then have "x \<noteq> ZeroDivisionError" using evaluate_error [OF t, of net'] by auto
        then show ?thesis using r v Some Inl by (simp add: sgd_def)
      next
        case (Inr w)
        then show ?thesis using r v Some by (cases w) (simp add: sgd_def)
      qed
    qed
  qed
qed

text \<open>
  C10. \<open>sgd\<close> counts the rows of \<open>data\<close> once; every epoch shuffles the array (the same
  rows in another order) and cuts it at the starts \<open>range(0, num_examples,
  mini_batch_size)\<close>. For a dataset with at least one row and a mini-batch size of at
  least 1: every epoch of the loop of \<open>sgd\<close>, started on an array \<open>d\<close> holding the rows of
  \<open>data\<close>, cuts the shuffled array into a non-empty list of non-empty slices and runs
  \<open>update_mini_batch\<close> on exactly these, before it evaluates and goes on to the next
  epoch. An empty slice is what makes \<open>update_mini_batch\<close> divide by zero; so \<open>sgd\<close>
  never fails with ZeroDivisionError, provided that the two other places that could
  raise it are out of the way: the configured cost derivative does not raise it, and the
  test data, when given, has a row (the divisions of \<open>evaluate\<close> and \<open>J_average\<close>).
\<close>

theorem sgd_batches_nonempty:
  assumes "1 \<le> mini_batch_size" and "data \<noteq> []"
    and "\<forall>epoch d. mset (shuffle epoch d) = mset d"
    and "\<forall>a y. net_cost_derivative net a y \<noteq> Inl ZeroDivisionError"
    and "test_data \<noteq> Some []"
  shows "sgd shuffle net data mini_batch_size max_epochs learning_rate test_data \<noteq>
           Inl ZeroDivisionError \<and>
         (\<forall>epoch epochs d net1. mset d = mset data \<longrightarrow>
            (\<exists>batches.
               mini_batches (shuffle epoch d) mini_batch_size (length data) = Inr batches \<and>
               batches \<noteq> [] \<and> (\<forall>b\<in>set batches. b \<noteq> []) \<and>
               sgd_epochs shuffle net1 d mini_batch_size (epoch # epochs) learning_rate
                   test_data (length data) =
                 (case run_batches net1 batches learning_rate of
                    Inl e \<Rightarrow> Inl e
                  | Inr net2 \<Rightarrow>
                      (case (case test_data of
                               None \<Rightarrow> Inr net2
                             | Some t \<Rightarrow>
                                 (case evaluate net2 t of
                                    Inl e \<Rightarrow> Inl e
                                  | Inr (r, net3) \<Rightarrow>
                                      (case J_average net3 t of
                                         Inl e \<Rightarrow> Inl e
                                       | Inr (j, net4) \<Rightarrow> Inr net4))) of
                         Inl e \<Rightarrow> Inl e
                       | Inr net5 \<Rightarrow>
                           sgd_epochs shuffle net5 (shuffle epoch d) mini_batch_size epochs
                             learning_rate test_data (length data))))) \<and>
         (\<forall>net'. update_mini_batch net' [] learning_rate = Inl ZeroDivisionError)"
proof (intro conjI allI impI)
  show "sgd shuffle net data mini_batch_size max_epochs learning_rate test_data \<noteq>
           Inl ZeroDivisionError"
    using assms by (rule sgd_error)
next
  fix epoch epochs d net1 assume "mset d = mset data"
  then have "mset (shuffle epoch d) = mset data" using assms(3) by simp
  from mini_batches_nonempty [OF assms(1,2) this]
  obtain batches where
    bs: "mini_batches (shuffle epoch d) mini_batch_size (length data) = Inr batches"
    and ne: "batches \<noteq> []" "\<forall>b\<in>set batches. b \<noteq> []"
    by blast
  have "sgd_epochs shuffle net1 d mini_batch_size (epoch # epochs) learning_rate
                   test_data (length data) =
                 (case run_batches net1 batches learning_rate of
                    Inl e \<Rightarrow> Inl e
                  | Inr net2 \<Rightarrow>
                      (case (case test_data of
                               None \<Rightarrow> Inr net2
                             | Some t \<Rightarrow>
                                 (case evaluate net2 t of
                                    Inl e \<Rightarrow> Inl e
                                  | Inr (r, net3) \<Rightarrow>
                                      (case J_average net3 t of
                                         Inl e \<Rightarrow> Inl e
                                       | Inr (j, net4) \<Rightarrow> Inr net4))) of
                         Inl e \<Rightarrow> Inl e
                       | Inr net5 \<Rightarrow>
                           sgd_epochs shuffle net5 (shuffle epoch d) mini_batch_size epochs
                             learning_rate test_data (length data)))"
    by (simp only: sgd_epochs.simps bs sum.case)
  with bs ne
  show "\<exists>batches.
               mini_batches (shuffle epoch d) mini_batch_size (length data) = Inr batches \<and>
               batches \<noteq> [] \<and> (\<forall>b\<in>set batches. b \<noteq> []) \<and>
               sgd_epochs shuffle net1 d mini_batch_size (epoch # epochs) learning_rate
                   test_data (length data) =
                 (case run_batches net1 batches learning_rate of
                    Inl e \<Rightarrow> Inl e
                  | Inr net2 \<Rightarrow>
                      (case (case test_data of
                               None \<Rightarrow> Inr net2
                             | Some t \<Rightarrow>
                                 (case evaluate net2 t of
                                    Inl e \<Rightarrow> Inl e
                                  | Inr (r, net3) \<Rightarrow>
                                      (case J_average net3 t of
                                         Inl e \<Rightarrow> Inl e
                                       | Inr (j, net4) \<Rightarrow> Inr net4))) of
                         Inl e \<Rightarrow> Inl e
                       | Inr net5 \<Rightarrow>
                           sgd_epochs shuffle net5 (shuffle epoch d) mini_batch_size epochs
                             learning_rate test_data (length data)))"
    by blast
next
  fix net'
  show "update_mini_batch net' [] learning_rate = Inl ZeroDivisionError"
    by (simp add: update_mini_batch_def split_columns_def truediv_def)
qed

theorem sgd_batches_nonempty_witness:
  "let net = \<lparr>num_layers = 2, structure = [1, 1],
               activate_function = (\<lambda>v. v), activate_derivative = map (\<lambda>s. 1),
               net_cost_derivative = cost_derivative,
               weights = [[[1]]], biases = [[0]]\<rparr>;
       data = [[1, 0], [2, 0], [3, 0]]
   in (1::int) \<le> 2 \<and> data \<noteq> [] \<and> (\<forall>epoch d. mset (rev d) = mset (d :: mat)) \<and>
      (\<forall>a y. net_cost_derivative net a y \<noteq> Inl ZeroDivisionError) \<and>
      (None :: mat option) \<noteq> Some [] \<and>
      mini_batches (rev data) 2 (length data) = Inr [[[3, 0], [2, 0]], [[1, 0]]] \<and>
      sgd (\<lambda>epoch. rev) net data 2 1 1 None =
        Inr (0, net\<lparr>weights := [[[5 / 2]]], biases := [[4]]\<rparr>, rev data) \<and>
      sgd (\<lambda>epoch. rev) net data 2 1 1 None \<noteq> Inl ZeroDivisionError"
proof -
  define net where "net = \<lparr>num_layers = 2, structure = [1, 1],
               activate_function = (\<lambda>v. v), activate_derivative = map (\<lambda>s. 1),
               net_cost_derivative = cost_derivative,
               weights = [[[1]]], biases = [[0::real]]\<rparr>"
  define data where "data = [[1, 0], [2, 0], [3, 0::real]]"
  have h2: "data \<noteq> []" by (simp add: data_def)
  have h3: "\<forall>epoch d. mset (rev d) = mset (d :: mat)" by simp
  have h4: "\<forall>a y. net_cost_derivative net a y \<noteq> Inl ZeroDivisionError"
    by (auto simp: net_def cost_derivative_def split: sum.splits dest: py_set_error)
  have h5: "(None :: mat option) \<noteq> Some []" by simp
  have mb: "mini_batches (rev data) 2 (length data) = Inr [[[3, 0], [2, 0]], [[1, 0]]]"
    by (simp add: data_def mini_batches_def py_range_def py_slice_def slice_bound_def upt_rec)
  have b1: "backprop net [3] 0 = Inr ([[[6]]], [[2]])"
    by (simp add: net_def backprop_def dot_def vdot_def vec_op_def py_get_def py_set_def
        py_index_def cost_derivative_def zeros_like_def zeros_like_mat_def py_int_simps
        outer_def)
  have b2: "backprop net [2] 0 = Inr ([[[2]]], [[1]])"
    by (simp add: net_def backprop_def dot_def vdot_def vec_op_def py_get_def py_set_def
        py_index_def cost_derivative_def zeros_like_def zeros_like_mat_def py_int_simps
        outer_def)
  have u1: "update_mini_batch net [[3, 0], [2, 0]] 1 =
      Inr (net\<lparr>weights := [[[- 3]]], biases := [[- 3 / 2]]\<rparr>)"
    using b1 b2 unfolding net_def
    by (simp add: update_mini_batch_def split_columns_def vec_op_def mat_op_def
        truediv_def scale_vec_def scale_mat_def zeros_like_def zeros_like_mat_def)
  have b3: "backprop (net\<lparr>weights := [[[- 3]]], biases := [[- 3 / 2]]\<rparr>) [1] 0 =
      Inr ([[[- 11 / 2]]], [[- 11 / 2]])"
    by (simp add: net_def backprop_def dot_def vdot_def vec_op_def py_get_def py_set_def
        py_index_def cost_derivative_def zeros_like_def zeros_like_mat_def py_int_simps
        outer_def)
  have u2: "update_mini_batch (net\<lparr>weights := [[[- 3]]], biases := [[- 3 / 2]]\<rparr>) [[1, 0]] 1 =
      Inr (net\<lparr>weights := [[[5 / 2]]], biases := [[4]]\<rparr>)"
    using b3 unfolding net_def
    by (simp add: update_mini_batch_def split_columns_def vec_op_def mat_op_def
        truediv_def scale_vec_def scale_mat_def zeros_like_def zeros_like_mat_def)
  have run: "sgd (\<lambda>epoch. rev) net data 2 1 1 None =
        Inr (0, net\<lparr>weights := [[[5 / 2]]], biases := [[4]]\<rparr>, rev data)"
    using mb u1 u2 by (simp add: sgd_def)
  show ?thesis
    using sgd_batches_nonempty [OF _ h2 h3 h4 h5, of 2 1 1] h2 h3 h4 h5 mb run
    unfolding net_def data_def Let_def by simp
qed

section \<open>Evaluation on a test dataset\<close>

text \<open>Forward inference returns the final activation of the forward pass, and
  \<open>argmax\<close> the first index of a greatest entry.\<close>

lemma forward_loop_eq:
  assumes "shaped n ws bs" "length a = n" "\<forall>v. length (f v) = length v"
  shows "forward_loop f (zip ws bs) a = Inr (last (activations f ws bs a))"
  using assms
proof (induction n ws bs arbitrary: a rule: shaped.induct)
  case (1 n)
  then show ?case by simp
next
  case (2 n w ws b bs)
  have d: "dot w a = Inr (mat_vec w a)"
    using 2 by (simp add: dot_ok)
  have s: "vec_op (+) (mat_vec w a) b = Inr (affine w b a)"
    using 2 by (simp add: vec_op_ok affine_def length_mat_vec)
  have len: "length (f (affine w b a)) = length w"
    using 2 by (simp add: length_affine)
  have "forward_loop f (zip ws bs) (f (affine w b a)) =
        Inr (last (activations f ws bs (f (affine w b a))))"
    using 2 len by (intro "2.IH") auto
  moreover have "activations f ws bs (f (affine w b a)) \<noteq> []"
    using activations_Cons [of f ws bs "f (affine w b a)"] by (metis list.distinct(1))
  ultimately show ?case using d s by simp
qed simp_all

lemma forward_feed_value:
  assumes wf: "well_formed net" and lx: "length x = input_size net"
  shows "forward_feed net x = Inr (last (activation_trace net x))"
    and "last (activation_trace net x) \<noteq> []"
proof -
  define L where "L = length (weights net)"
  define A where "A = activation_trace net x"
  have sh: "shaped (input_size net) (weights net) (biases net)"
    and fl: "\<forall>v. length (activate_function net v) = length v"
    using wf by (simp_all add: well_formed_def)
  show "forward_feed net x = Inr (last (activation_trace net x))"
    unfolding forward_feed_def activation_trace_def using sh lx fl by (rule forward_loop_eq)
  have L1: "1 \<le> L" and lb: "length (biases net) = L"
    using well_formed_layers [OF wf] by (simp_all add: L_def)
  have lenA: "length A = Suc L"
    using lb by (simp add: A_def activation_trace_def length_activations L_def)
  then have "A \<noteq> []" by auto
  then have lastA: "last A = A ! Suc (L - 1)"
    using lenA L1 by (simp add: last_conv_nth)
  have "weights net ! (L - 1) \<noteq> [] \<and>
        length (A ! Suc (L - 1)) = length (weights net ! (L - 1))"
    using trace_shapes [OF sh lx fl, of "L - 1"] L1
    by (simp add: L_def A_def activation_trace_def)
  then show "last (activation_trace net x) \<noteq> []"
    using lastA by (auto simp: A_def)
qed

lemma argmax_loop_first_max:
  assumes "length p = i" "best_i < i" "p ! best_i = best"
    "\<forall>j<i. p ! j \<le> best" "\<forall>j<best_i. p ! j < best"
  shows "argmax_loop xs i best_i best < length (p @ xs) \<and>
     (\<forall>j<length (p @ xs). (p @ xs) ! j \<le> (p @ xs) ! argmax_loop xs i best_i best) \<and>
     (\<forall>j<argmax_loop xs i best_i best. (p @ xs) ! j < (p @ xs) ! argmax_loop xs i best_i best)"
  using assms
proof (induction xs arbitrary: p i best_i best)
  case Nil
  then show ?case by simp
next
  case (Cons x xs)
  show ?case
  proof (cases "best < x")
    case True
    have "argmax_loop xs (Suc i) i x < length ((p @ [x]) @ xs) \<and>
     (\<forall>j<length ((p @ [x]) @ xs). ((p @ [x]) @ xs) ! j \<le> ((p @ [x]) @ xs) ! argmax_loop xs (Suc i) i x) \<and>
     (\<forall>j<argmax_loop xs (Suc i) i x. ((p @ [x]) @ xs) ! j < ((p @ [x]) @ xs) ! argmax_loop xs (Suc i) i x)"
    proof (rule Cons.IH)
      show "length (p @ [x]) = Suc i" using Cons.prems(1) by simp
      show "i < Suc i" by simp
      show "(p @ [x]) ! i = x" using Cons.prems(1) by (auto simp: nth_append)
      show "\<forall>j<Suc i. (p @ [x]) ! j \<le> x"
      proof (intro allI impI)
        fix j assume "j < Suc i"
        then show "(p @ [x]) ! j \<le> x"
          using Cons.prems(1,4) True by (cases "j = i") (auto simp: nth_append less_Suc_eq)
      qed
      show "\<forall>j<i. (p @ [x]) ! j < x"
        using Cons.prems(1,4) True by (auto simp: nth_append)
    qed
    then show ?thesis using True by simp
  next
    case False
    have "argmax_loop xs (Suc i) best_i best < length ((p @ [x]) @ xs) \<and>
     (\<forall>j<length ((p @ [x]) @ xs). ((p @ [x]) @ xs) ! j \<le> ((p @ [x]) @ xs) ! argmax_loop xs (Suc i) best_i best) \<and>
     (\<forall>j<argmax_loop xs (Suc i) best_i best. ((p @ [x]) @ xs) ! j < ((p @ [x]) @ xs) ! argmax_loop xs (Suc i) best_i best)"
    proof (rule Cons.IH)
      show "length (p @ [x]) = Suc i" using Cons.prems(1) by simp
      show "best_i < Suc i" using Cons.prems(2) by simp
      show "(p @ [x]) ! best_i = best" using Cons.prems(1,2,3) by (simp add: nth_append)
      show "\<forall>j<Suc i. (p @ [x]) ! j \<le> best"
      proof (intro allI impI)
        fix j assume "j < Suc i"
        then show "(p @ [x]) ! j \<le> best"
          using Cons.prems(1,4) False by (cases "j = i") (auto simp: nth_append less_Suc_eq)
      qed
      show "\<forall>j<best_i. (p @ [x]) ! j < best"
        using Cons.prems(1,2,5) by (auto simp: nth_append)
    qed
    then show ?thesis using False by simp
  qed
qed

lemma argmax_first_max:
  assumes "v \<noteq> []"
  shows "\<exists>k. argmax v = Inr k \<and> k < length v \<and> (\<forall>j<length v. v ! j \<le> v ! k) \<and>
           (\<forall>j<k. v ! j < v ! k)"
proof -
  obtain x xs where v: "v = x # xs" using assms by (cases v) auto
  have "argmax_loop xs 1 0 x < length ([x] @ xs) \<and>
     (\<forall>j<length ([x] @ xs). ([x] @ xs) ! j \<le> ([x] @ xs) ! argmax_loop xs 1 0 x) \<and>
     (\<forall>j<argmax_loop xs 1 0 x. ([x] @ xs) ! j < ([x] @ xs) ! argmax_loop xs 1 0 x)"
    by (rule argmax_loop_first_max) simp_all
  then show ?thesis using v by (simp add: argmax_def)
qed

lemma count_filter:
  "sum_list (map (\<lambda>x. if P x then 1 else 0) xs) = length (filter P xs)"
  by (induction xs) simp_all


lemma predict_value:
  assumes wf: "well_formed net" and lr: "length r = Suc (input_size net)"
  shows "\<exists>k. forward_feed net (butlast r) = Inr (last (activation_trace net (butlast r))) \<and>
     argmax (last (activation_trace net (butlast r))) = Inr k \<and>
     k < length (last (activation_trace net (butlast r))) \<and>
     (\<forall>j<length (last (activation_trace net (butlast r))).
        last (activation_trace net (butlast r)) ! j \<le> last (activation_trace net (butlast r)) ! k) \<and>
     (\<forall>j<k. last (activation_trace net (butlast r)) ! j <
              last (activation_trace net (butlast r)) ! k) \<and>
     predict net (butlast r, last r) = Inr (k, last r) \<and>
     (classified net r \<longleftrightarrow> real k = last r)"
proof -
  define out where "out = last (activation_trace net (butlast r))"
  have lx: "length (butlast r) = input_size net" using lr by simp
  have ff: "forward_feed net (butlast r) = Inr out" and ne: "out \<noteq> []"
    using forward_feed_value [OF wf lx] by (simp_all add: out_def)
  obtain k where k: "argmax out = Inr k" "k < length out" "\<forall>j<length out. out ! j \<le> out ! k"
    "\<forall>j<k. out ! j < out ! k"
    using argmax_first_max [OF ne] by blast
  have p: "predict net (butlast r, last r) = Inr (k, last r)"
    using ff k(1) by (simp add: predict_def)
  have c: "classified net r \<longleftrightarrow> real k = last r"
    using ff k(1) by (simp add: classified_def)
  show ?thesis
    unfolding out_def [symmetric] using ff k p c by blast
qed

text \<open>
  C6. For a well-formed network and a non-empty test dataset whose rows have one
  feature for every input neuron and then the label, \<open>evaluate\<close> returns 100 times the
  fraction of the rows that are classified correctly, a value between 0 and 100, and
  the network as it was. A row is classified correctly when the first index of the
  greatest entry of the output of \<open>forward_feed\<close> for its features (the final activation
  of the forward pass) is equal to its label.
\<close>

theorem evaluate_percentage:
  assumes "well_formed net" and "test_data \<noteq> []"
    and "list_all (\<lambda>r. length r = Suc (input_size net)) test_data"
  shows "evaluate net test_data =
           Inr (real (length (filter (classified net) test_data)) / real (length test_data) * 100,
                net) \<and>
         0 \<le> real (length (filter (classified net) test_data)) / real (length test_data) * 100 \<and>
         real (length (filter (classified net) test_data)) / real (length test_data) * 100 \<le> 100 \<and>
         (\<forall>r\<in>set test_data. \<exists>k.
            forward_feed net (butlast r) = Inr (last (activation_trace net (butlast r))) \<and>
            argmax (last (activation_trace net (butlast r))) = Inr k \<and>
            k < length (last (activation_trace net (butlast r))) \<and>
            (\<forall>j<length (last (activation_trace net (butlast r))).
               last (activation_trace net (butlast r)) ! j \<le>
               last (activation_trace net (butlast r)) ! k) \<and>
            (\<forall>j<k. last (activation_trace net (butlast r)) ! j <
                     last (activation_trace net (butlast r)) ! k) \<and>
            (classified net r \<longleftrightarrow> real k = last r))"
proof -
  define h where "h r = (case argmax (last (activation_trace net (butlast r))) of
                           Inl e \<Rightarrow> 0 | Inr k \<Rightarrow> k)" for r
  define n where "n = length test_data"
  define c where "c = length (filter (classified net) test_data)"
  have rows: "\<forall>r\<in>set test_data. length r = Suc (input_size net)"
    using assms(3) by (simp add: list_all_iff)
  have sc: "split_columns test_data = Inr (map (\<lambda>r. (butlast r, last r)) test_data)"
    using rows by (auto simp: split_columns_def list_ex_iff)
  have pr: "predict net (butlast r, last r) = Inr (h r, last r) \<and>
            (classified net r \<longleftrightarrow> real (h r) = last r)" if mem: "r \<in> set test_data" for r
  proof -
    obtain k where "argmax (last (activation_trace net (butlast r))) = Inr k"
      "predict net (butlast r, last r) = Inr (k, last r)"
      "classified net r \<longleftrightarrow> real k = last r"
      using predict_value [OF assms(1), of r] rows mem by blast
    then show ?thesis by (simp add: h_def)
  qed
  have "collect (map (\<lambda>r. predict net (butlast r, last r)) test_data) =
      Inr (map (\<lambda>r. (h r, last r)) test_data)"
    using pr by (intro collect_map) simp
  then have co: "collect (map (predict net) (map (\<lambda>r. (butlast r, last r)) test_data)) =
      Inr (map (\<lambda>r. (h r, last r)) test_data)"
    by (simp add: comp_def)
  have "map (\<lambda>(x, y). if real x = y then 1 else 0) (map (\<lambda>r. (h r, last r)) test_data) =
      map (\<lambda>r. if classified net r then 1 else (0::nat)) test_data"
    using pr by (simp add: comp_def)
  then have cnt: "sum_list (map (\<lambda>(x, y). if real x = y then 1 else 0)
      (map (\<lambda>r. (h r, last r)) test_data)) = c"
    by (simp only: count_filter c_def)
  have npos: "0 < n" using assms(2) by (simp add: n_def)
  have td: "truediv (real c) n = Inr (real c / real n)"
    using npos by (simp add: truediv_def)
  have val: "evaluate net test_data = Inr (real c / real n * 100, net)"
    unfolding evaluate_def Let_def n_def [symmetric]
    by (simp only: sc co cnt td sum.case)
  have "c \<le> n" by (simp add: c_def n_def)
  then have "real c / real n \<le> 1" using npos by simp
  then have "real c / real n * 100 \<le> 1 * 100" by (rule mult_right_mono) simp
  then have hi: "real c / real n * 100 \<le> 100" by (simp only: mult_1)
  have lo: "0 \<le> real c / real n * 100" by simp
  have each: "\<forall>r\<in>set test_data. \<exists>k.
            forward_feed net (butlast r) = Inr (last (activation_trace net (butlast r))) \<and>
            argmax (last (activation_trace net (butlast r))) = Inr k \<and>
            k < length (last (activation_trace net (butlast r))) \<and>
            (\<forall>j<length (last (activation_trace net (butlast r))).
               last (activation_trace net (butlast r)) ! j \<le>
               last (activation_trace net (butlast r)) ! k) \<and>
            (\<forall>j<k. last (activation_trace net (butlast r)) ! j <
                     last (activation_trace net (butlast r)) ! k) \<and>
            (classified net r \<longleftrightarrow> real k = last r)"
  proof
    fix r assume "r \<in> set test_data"
    then have "length r = Suc (input_size net)" using rows by simp
    from predict_value [OF assms(1) this]
    show "\<exists>k.
            forward_feed net (butlast r) = Inr (last (activation_trace net (butlast r))) \<and>
            argmax (last (activation_trace net (butlast r))) = Inr k \<and>
            k < length (last (activation_trace net (butlast r))) \<and>
            (\<forall>j<length (last (activation_trace net (butlast r))).
               last (activation_trace net (butlast r)) ! j \<le>
               last (activation_trace net (butlast r)) ! k) \<and>
            (\<forall>j<k. last (activation_trace net (butlast r)) ! j <
                     last (activation_trace net (butlast r)) ! k) \<and>
            (classified net r \<longleftrightarrow> real k = last r)"
      by blast
  qed
  show ?thesis
    using val lo hi each unfolding c_def n_def by blast
qed


theorem evaluate_percentage_witness:
  "let net = \<lparr>num_layers = 2, structure = [2, 2],
               activate_function = (\<lambda>v. v), activate_derivative = map (\<lambda>s. 1),
               net_cost_derivative = cost_derivative,
               weights = [[[1, 0], [0, 1]]], biases = [[0, 0]]\<rparr>;
       test_data = [[1, 2, 1], [3, 1, 1], [0, 5, 0], [1, 1, 0]]
   in well_formed net \<and> test_data \<noteq> [] \<and>
      list_all (\<lambda>r. length r = Suc (input_size net)) test_data \<and>
      filter (classified net) test_data = [[1, 2, 1], [1, 1, 0]] \<and>
      evaluate net test_data = Inr (50, net)"
proof -
  define net where "net = \<lparr>num_layers = 2, structure = [2, 2],
               activate_function = (\<lambda>v. v), activate_derivative = map (\<lambda>s. 1),
               net_cost_derivative = cost_derivative,
               weights = [[[1, 0], [0, 1]]], biases = [[0, 0::real]]\<rparr>"
  define test_data where "test_data = [[1, 2, 1], [3, 1, 1], [0, 5, 0], [1, 1, 0::real]]"
  have wf: "well_formed net"
    by (simp add: net_def well_formed_def input_size_def)
  have ne: "test_data \<noteq> []" by (simp add: test_data_def)
  have rows: "list_all (\<lambda>r. length r = Suc (input_size net)) test_data"
    by (simp add: test_data_def net_def input_size_def)
  have cl: "filter (classified net) test_data = [[1, 2, 1], [1, 1, 0]]"
    by (simp add: test_data_def net_def classified_def forward_feed_def dot_def vdot_def
        vec_op_def argmax_def)
  have "evaluate net test_data =
      Inr (real (length (filter (classified net) test_data)) / real (length test_data) * 100, net)"
    using evaluate_percentage [OF wf ne rows] by blast
  then have "evaluate net test_data = Inr (50, net)"
    by (simp add: cl) (simp add: test_data_def)
  then show ?thesis
    using wf ne rows cl unfolding net_def test_data_def Let_def by blast
qed

end
